theory Spec2Isabelle
  imports Complex_Main
begin

section \<open>rjgtoys.progressive.thread: a progress-tracked callable run in a worker thread\<close>

text \<open>
  The module wraps a callable in a \<^verbatim>\<open>Threaded\<close> object. \<^verbatim>\<open>start\<close> spawns a worker thread
  that runs the callable with the object itself as progress handle; the callable reports
  through \<^verbatim>\<open>set_goal\<close>, \<^verbatim>\<open>update\<close> and \<^verbatim>\<open>stopping\<close>; the caller observes with
  \<^verbatim>\<open>sample\<close> and collects the outcome with \<^verbatim>\<open>wait\<close>.

  The embedding is a state machine over the attributes of one \<^verbatim>\<open>Threaded\<close> object:
  \<^item> every method body is a function from the object to a reply and the new object;
  \<^item> an attribute that \<^verbatim>\<open>__init__\<close> does not assign is an \<open>option\<close> field, \<open>None\<close>
    until its first assignment, and reading it then raises \<^verbatim>\<open>AttributeError\<close>;
  \<^item> a leading underscore of the source is written as the prefix \<open>p_\<close>
    (\<^verbatim>\<open>_steps\<close> is \<open>p_steps\<close>); the public attribute \<^verbatim>\<open>done\<close> is \<open>done_pub\<close>;
  \<^item> the caller threads and the worker thread interleave: an execution is a list of
    events, each one atomic step of one thread (\<open>step\<close>, \<open>exec\<close>). A step is a block
    \<^verbatim>\<open>with self._lock\<close>, the body of one of the short methods, or a run of assignments
    that no other thread is made to observe half done: the entry of \<^verbatim>\<open>start\<close> up to the
    spawn, the resets at the head of \<^verbatim>\<open>run\<close>, the two assignments after the callable
    returns, and what \<^verbatim>\<open>wait\<close> does after its join. A thread that waits (for the lock,
    for the join) has no step until it can go on;
  \<^item> \<^verbatim>\<open>time.time()\<close> is an input of the step that reads it. Its floats are taken as
    reals; no statement below depends on rounding;
  \<^item> integers are Python 2 integers (the example script of the repository is Python 2),
    so \<^verbatim>\<open>/\<close> on them is floor division, which is \<open>div\<close> on \<open>int\<close>.
\<close>

subsection \<open>Exceptions, return codes, replies\<close>

text \<open>
  The exceptions a call can raise. \<open>NameError\<close> and \<open>AttributeError\<close> carry the name that
  is unbound; \<open>TypeError\<close> is what \<^verbatim>\<open>raise None\<close> raises; \<open>ThreadError\<close> stands for a failure
  of \<^verbatim>\<open>threading.Thread.start\<close>, \<open>RuntimeError\<close> for joining a thread that never started;
  \<open>Propagated e\<close> is the exception object \<open>e\<close> of the wrapped callable.
\<close>

datatype 'e exn =
    AlreadyStartedError
  | ActionFailedError
  | Bug string
  | NameError string
  | AttributeError string
  | TypeError
  | ThreadError
  | RuntimeError
  | Propagated 'e

text \<open>The codes \<^verbatim>\<open>RETURN_NOTHING = 0\<close>, \<^verbatim>\<open>RETURN_VALUE = 1\<close>, \<^verbatim>\<open>RETURN_EXCEPTION = 2\<close>.\<close>

datatype ret = RETURN_NOTHING | RETURN_VALUE | RETURN_EXCEPTION

text \<open>
  What one step answers to the thread that takes it: \<open>Disabled\<close> when the step cannot be
  taken in this state (the thread is blocked on the lock or on the join, or no such call
  is in progress), \<open>Stepped\<close> when the thread moved but its call has not returned yet,
  otherwise the value returned (\<open>Ret_value None\<close> is Python's \<^verbatim>\<open>None\<close>) or the exception
  raised.
\<close>

datatype ('v, 'e) reply =
    Disabled
  | Stepped
  | Ret_none
  | Ret_bool bool
  | Ret_value "'v option"
  | Ret_exc_info "'e option"
  | Raises "'e exn"

subsection \<open>The wrapped callable and the threads\<close>

text \<open>
  A wrapped callable applied to its arguments, seen through its calls on the progress
  handle: it returns a value, raises, or calls \<^verbatim>\<open>set_goal(steps, done)\<close>,
  \<^verbatim>\<open>update(done)\<close> or \<^verbatim>\<open>stopping()\<close> and goes on. \<open>Stopping k1 k2\<close> continues as
  \<open>k1\<close> when \<^verbatim>\<open>stopping()\<close> answered true and as \<open>k2\<close> otherwise. A callable that is
  still computing, sleeping or blocked is one whose next step has not been taken yet.
\<close>

datatype ('v, 'e) prog =
    Return "'v option"
  | Raise 'e
  | Set_goal "int option" int "('v, 'e) prog"
  | Update int "('v, 'e) prog"
  | Stopping "('v, 'e) prog" "('v, 'e) prog"

text \<open>
  Where the worker thread stands in \<^verbatim>\<open>_run_stop\<close>: entering \<^verbatim>\<open>run\<close> with the arguments,
  inside the callable, at the test of \<^verbatim>\<open>_started\<close> after \<^verbatim>\<open>run\<close>, or at the final
  \<^verbatim>\<open>with self._lock\<close> block.
\<close>

datatype ('a, 'v, 'e) pc =
    At_run 'a
  | In_target "('v, 'e) prog"
  | At_started_check
  | At_bookkeeping

text \<open>
  A \<^verbatim>\<open>threading.Thread\<close> object: created but not started, alive, or finished (with the
  exception that ended it, if one did).
\<close>

datatype ('a, 'v, 'e) thread =
    Unstarted
  | Alive "('a, 'v, 'e) pc"
  | Finished "'e exn option"

text \<open>
  The re-entrant lock \<^verbatim>\<open>_lock\<close>. The blocks \<^verbatim>\<open>with self._lock\<close> of \<^verbatim>\<open>update\<close>,
  \<^verbatim>\<open>sample\<close> and \<^verbatim>\<open>_run_stop\<close> are single steps, so the lock is seen held only by a
  thread inside \<^verbatim>\<open>start\<close>, which keeps it through its loop: at
  \<^verbatim>\<open>self._started.wait(1.0)\<close> (\<open>Start_waits\<close>) or at \<^verbatim>\<open>self._worker.is_alive()\<close>
  (\<open>Start_checks\<close>).
\<close>

datatype lock = Unlocked | Start_waits | Start_checks

subsection \<open>The object\<close>

record ('a, 'v, 'e) threaded =
  p_target :: "('a \<Rightarrow> ('v, 'e) prog) option"
  name :: "string option"
  p_lock :: lock
  p_stopping :: bool
  p_started :: bool
  p_running :: bool
  p_steps :: int
  p_done :: int
  p_updated :: "real option"
  since :: "real option"
  p_return :: "ret option"
  p_result :: "'v option option"
  p_exc_info :: "'e option option"
  p_worker :: "('a, 'v, 'e) thread option"
  sampled :: "real option"
  updated :: "real option"
  steps :: "int option"
  done_pub :: "int option"
  pcdone :: "int option"
  ttg :: "real option"
  eta :: "real option"
  elapsed :: "real option"

text \<open>
  \<^verbatim>\<open>Threaded.__init__\<close> assigns \<^verbatim>\<open>_target\<close>, \<^verbatim>\<open>name\<close>, the lock, the two events,
  \<^verbatim>\<open>_running\<close>, \<^verbatim>\<open>_steps\<close> and \<^verbatim>\<open>_done\<close>, and nothing else.
\<close>

definition init :: "('a \<Rightarrow> ('v, 'e) prog) option \<Rightarrow> string option \<Rightarrow> ('a, 'v, 'e) threaded" where
  "init tg nm =
     \<lparr> p_target = tg, name = nm, p_lock = Unlocked,
       p_stopping = False, p_started = False, p_running = False,
       p_steps = 0, p_done = 0,
       p_updated = None, since = None,
       p_return = None, p_result = None, p_exc_info = None, p_worker = None,
       sampled = None, updated = None, steps = None, done_pub = None,
       pcdone = None, ttg = None, eta = None, elapsed = None \<rparr>"

text \<open>The decorator \<^verbatim>\<open>Thread(name)(f)\<close>.\<close>

definition Thread :: "string option \<Rightarrow> ('a \<Rightarrow> ('v, 'e) prog) \<Rightarrow> ('a, 'v, 'e) threaded" where
  "Thread nm f = init (Some f) nm"

subsection \<open>The methods of the progress handle\<close>

text \<open>
  \<^verbatim>\<open>set_goal(steps=None, done=0)\<close>: \<^verbatim>\<open>_steps\<close> only when \<^verbatim>\<open>steps\<close> is given, then
  \<^verbatim>\<open>_done\<close>, \<^verbatim>\<open>_updated\<close>, and the event \<^verbatim>\<open>_started\<close> is set. It takes no lock.
\<close>

definition set_goal :: "int option \<Rightarrow> int \<Rightarrow> real \<Rightarrow> ('a, 'v, 'e) threaded \<Rightarrow> ('a, 'v, 'e) threaded" where
  "set_goal st dn t s =
     (let s1 = (case st of None \<Rightarrow> s | Some n \<Rightarrow> s\<lparr>p_steps := n\<rparr>)
      in s1\<lparr>p_done := dn, p_updated := Some t, p_started := True\<rparr>)"

text \<open>\<^verbatim>\<open>update(done=1)\<close>, the body of its \<^verbatim>\<open>with self._lock\<close> block.\<close>

definition update :: "int \<Rightarrow> real \<Rightarrow> ('a, 'v, 'e) threaded \<Rightarrow> ('a, 'v, 'e) threaded" where
  "update d t s =
     (let s1 = s\<lparr>p_updated := Some t\<rparr>;
          s2 = s1\<lparr>p_done := p_done s1 + d\<rparr>
      in if p_done s2 < 0 then s2\<lparr>p_done := 0\<rparr>
         else if p_done s2 > p_steps s2 then s2\<lparr>p_done := p_steps s2\<rparr>
         else s2)"

definition stop :: "('a, 'v, 'e) threaded \<Rightarrow> ('a, 'v, 'e) threaded" where
  "stop s = s\<lparr>p_stopping := True\<rparr>"

definition stopping :: "('a, 'v, 'e) threaded \<Rightarrow> bool" where
  "stopping s = p_stopping s"

definition started :: "('a, 'v, 'e) threaded \<Rightarrow> bool" where
  "started s = p_started s"

subsection \<open>sample\<close>

text \<open>
  The last two assignments of \<^verbatim>\<open>sample\<close>: \<^verbatim>\<open>self.eta = self.ttg + t\<close> and
  \<^verbatim>\<open>self.elapsed = t - self.since\<close>.
\<close>

definition sample_tail :: "real \<Rightarrow> real \<Rightarrow> ('a, 'v, 'e) threaded \<Rightarrow> ('e exn + unit) \<times> ('a, 'v, 'e) threaded" where
  "sample_tail t g s =
     (let s1 = s\<lparr>eta := Some (g + t)\<rparr>
      in case since s1 of
           None \<Rightarrow> (Inl (AttributeError ''since''), s1)
         | Some b \<Rightarrow> (Inr (), s1\<lparr>elapsed := Some (t - b)\<rparr>))"

text \<open>
  \<^verbatim>\<open>sample()\<close>, the body of its \<^verbatim>\<open>with self._lock\<close> block, statement by statement. The
  method returns nothing: the snapshot is the eight public attributes it assigns. An
  exception leaves the attributes assigned before it.
\<close>

definition sample :: "real \<Rightarrow> ('a, 'v, 'e) threaded \<Rightarrow> ('e exn + unit) \<times> ('a, 'v, 'e) threaded" where
  "sample t s =
     (let s1 = s\<lparr>sampled := Some t\<rparr>
      in case p_updated s1 of
           None \<Rightarrow> (Inl (AttributeError ''_updated''), s1)
         | Some u \<Rightarrow>
             (let s2 = s1\<lparr>updated := Some u, steps := Some (p_steps s1), done_pub := Some (p_done s1)\<rparr>;
                  n = p_steps s1;
                  pc = (if n \<noteq> 0 then p_done s1 * 100 div n else 0);
                  s3 = s2\<lparr>pcdone := Some pc\<rparr>
              in if pc \<noteq> 0 then
                   (case since s3 of
                      None \<Rightarrow> (Inl (AttributeError ''since''), s3)
                    | Some b \<Rightarrow>
                        (let g = ((u - b) * (100 - real_of_int pc)) / real_of_int pc - (t - u)
                         in sample_tail t g (s3\<lparr>ttg := Some g\<rparr>)))
                 else sample_tail t 60 (s3\<lparr>ttg := Some 60\<rparr>)))"

subsection \<open>The worker thread\<close>

text \<open>
  One step of the callable. \<^verbatim>\<open>update\<close> needs the lock and cannot proceed while a thread
  inside \<^verbatim>\<open>start\<close> holds it. When the callable returns, \<^verbatim>\<open>run\<close> stores
  \<^verbatim>\<open>RETURN_VALUE\<close> and the result. When it raises, the handler stores
  \<^verbatim>\<open>RETURN_EXCEPTION\<close> and then evaluates \<^verbatim>\<open>sys.exc_info()\<close>: the module never imports
  \<^verbatim>\<open>sys\<close>, so this raises \<^verbatim>\<open>NameError\<close> inside the handler, \<^verbatim>\<open>_exc_info\<close> is not
  assigned, and the exception ends the thread.
\<close>

fun target_step :: "real \<Rightarrow> ('v, 'e) prog \<Rightarrow> ('a, 'v, 'e) threaded \<Rightarrow> ('v, 'e) reply \<times> ('a, 'v, 'e) threaded" where
  "target_step t (Set_goal st dn k) s =
     (Stepped, (set_goal st dn t s)\<lparr>p_worker := Some (Alive (In_target k))\<rparr>)"
| "target_step t (Update d k) s =
     (if p_lock s \<noteq> Unlocked then (Disabled, s)
      else (Stepped, (update d t s)\<lparr>p_worker := Some (Alive (In_target k))\<rparr>))"
| "target_step t (Stopping k1 k2) s =
     (Stepped, s\<lparr>p_worker := Some (Alive (In_target (if stopping s then k1 else k2)))\<rparr>)"
| "target_step t (Return r) s =
     (Stepped, s\<lparr>p_return := Some RETURN_VALUE, p_result := Some r,
                 p_worker := Some (Alive At_started_check)\<rparr>)"
| "target_step t (Raise e) s =
     (Stepped, s\<lparr>p_return := Some RETURN_EXCEPTION,
                 p_worker := Some (Finished (Some (NameError ''sys'')))\<rparr>)"

text \<open>
  One step of the worker thread. Entering \<^verbatim>\<open>run\<close> with no target evaluates
  \<^verbatim>\<open>NothingToDoBug\<close>, a name the module does not define (it defines
  \<^verbatim>\<open>NothingToDoError\<close>), which ends the thread with \<^verbatim>\<open>NameError\<close>; otherwise the three
  outcome attributes are reset and the callable is entered. After \<^verbatim>\<open>run\<close>,
  \<^verbatim>\<open>_run_stop\<close> returns at once when \<^verbatim>\<open>_started\<close> is not set; else it takes the lock
  for \<^verbatim>\<open>update(0)\<close>, \<^verbatim>\<open>_started.clear()\<close> and \<^verbatim>\<open>_running = False\<close>.
\<close>

definition worker_step :: "real \<Rightarrow> ('a, 'v, 'e) threaded \<Rightarrow> ('v, 'e) reply \<times> ('a, 'v, 'e) threaded" where
  "worker_step t s =
     (case p_worker s of
        Some (Alive (At_run a)) \<Rightarrow>
          (case p_target s of
             None \<Rightarrow> (Stepped, s\<lparr>p_worker := Some (Finished (Some (NameError ''NothingToDoBug'')))\<rparr>)
           | Some f \<Rightarrow>
               (Stepped, s\<lparr>p_return := Some RETURN_NOTHING, p_result := Some None,
                           p_exc_info := Some None,
                           p_worker := Some (Alive (In_target (f a)))\<rparr>))
      | Some (Alive (In_target p)) \<Rightarrow> target_step t p s
      | Some (Alive At_started_check) \<Rightarrow>
          (if \<not> p_started s then (Stepped, s\<lparr>p_worker := Some (Finished None)\<rparr>)
           else (Stepped, s\<lparr>p_worker := Some (Alive At_bookkeeping)\<rparr>))
      | Some (Alive At_bookkeeping) \<Rightarrow>
          (if p_lock s \<noteq> Unlocked then (Disabled, s)
           else (Stepped, (update 0 t s)\<lparr>p_started := False, p_running := False,
                                          p_worker := Some (Finished None)\<rparr>))
      | _ \<Rightarrow> (Disabled, s))"

subsection \<open>start\<close>

text \<open>
  Entering \<^verbatim>\<open>start(*args)\<close>: the lock is taken (the call blocks while another thread
  holds it), \<^verbatim>\<open>_running\<close> is tested and set, \<^verbatim>\<open>_started\<close> is cleared, \<^verbatim>\<open>since\<close> is
  read from the clock and the worker thread is created and started. \<open>spawn_ok\<close> is false
  when \<^verbatim>\<open>Thread.start\<close> raises: the handler clears \<^verbatim>\<open>_running\<close> and re-raises.
\<close>

definition start :: "'a \<Rightarrow> real \<Rightarrow> bool \<Rightarrow> ('a, 'v, 'e) threaded \<Rightarrow> ('v, 'e) reply \<times> ('a, 'v, 'e) threaded" where
  "start a t spawn_ok s =
     (if p_lock s \<noteq> Unlocked then (Disabled, s)
      else if p_running s then (Raises AlreadyStartedError, s)
      else
        (let s1 = s\<lparr>p_running := True, p_started := False, since := Some t\<rparr>
         in if spawn_ok
            then (Stepped, s1\<lparr>p_worker := Some (Alive (At_run a)), p_lock := Start_waits\<rparr>)
            else (Raises ThreadError, s1\<lparr>p_worker := Some Unstarted, p_running := False\<rparr>)))"

definition is_alive :: "('a, 'v, 'e) threaded \<Rightarrow> bool" where
  "is_alive s = (case p_worker s of Some (Alive q) \<Rightarrow> True | _ \<Rightarrow> False)"

text \<open>
  One step of the loop \<^verbatim>\<open>while not self._started.wait(1.0): if not
  self._worker.is_alive(): ...\<close>. At the wait, a set event ends \<^verbatim>\<open>start\<close> normally and
  releases the lock; a timeout goes on to the liveness test. There, a worker that is not
  alive clears \<^verbatim>\<open>_running\<close> and raises \<^verbatim>\<open>ActionFailedError\<close>.
\<close>

definition start_poll :: "('a, 'v, 'e) threaded \<Rightarrow> ('v, 'e) reply \<times> ('a, 'v, 'e) threaded" where
  "start_poll s =
     (case p_lock s of
        Unlocked \<Rightarrow> (Disabled, s)
      | Start_waits \<Rightarrow>
          (if p_started s then (Ret_none, s\<lparr>p_lock := Unlocked\<rparr>)
           else (Stepped, s\<lparr>p_lock := Start_checks\<rparr>))
      | Start_checks \<Rightarrow>
          (if is_alive s then (Stepped, s\<lparr>p_lock := Start_waits\<rparr>)
           else (Raises ActionFailedError, s\<lparr>p_running := False, p_lock := Unlocked\<rparr>)))"

subsection \<open>wait and the captured exception\<close>

text \<open>
  \<^verbatim>\<open>wait(timeout=None)\<close>. What follows the join (\<open>wait_outcome\<close>) reads
  \<^verbatim>\<open>_return\<close>: a value is returned and the slot reset; an exception is raised from
  \<^verbatim>\<open>self._exc_info[1]\<close>, where \<open>Some None\<close> is the triple of \<^verbatim>\<open>None\<close> that \<^verbatim>\<open>run\<close>
  stores, and \<^verbatim>\<open>raise None\<close> is a \<^verbatim>\<open>TypeError\<close>; anything else is a \<^verbatim>\<open>Bug\<close>.
  The join itself: \<open>timed_out\<close> says that it returned because its timeout expired;
  without that it returns only when the worker has finished.
\<close>

definition wait_outcome :: "('a, 'v, 'e) threaded \<Rightarrow> ('v, 'e) reply \<times> ('a, 'v, 'e) threaded" where
  "wait_outcome s =
     (case p_return s of
        None \<Rightarrow> (Raises (AttributeError ''_return''), s)
      | Some RETURN_VALUE \<Rightarrow>
          (case p_result s of
             None \<Rightarrow> (Raises (AttributeError ''_result''), s)
           | Some r \<Rightarrow> (Ret_value r, s\<lparr>p_return := Some RETURN_NOTHING, p_result := Some None\<rparr>))
      | Some RETURN_EXCEPTION \<Rightarrow>
          (case p_exc_info s of
             None \<Rightarrow> (Raises (AttributeError ''_exc_info''), s)
           | Some None \<Rightarrow> (Raises TypeError, s)
           | Some (Some e) \<Rightarrow> (Raises (Propagated e), s))
      | Some RETURN_NOTHING \<Rightarrow> (Raises (Bug ''Unrecognised return type''), s))"

definition wait :: "bool \<Rightarrow> ('a, 'v, 'e) threaded \<Rightarrow> ('v, 'e) reply \<times> ('a, 'v, 'e) threaded" where
  "wait timed_out s =
     (case p_worker s of
        None \<Rightarrow> (Raises (AttributeError ''_worker''), s)
      | Some Unstarted \<Rightarrow> (Raises RuntimeError, s)
      | Some (Alive q) \<Rightarrow> (if timed_out then wait_outcome s else (Disabled, s))
      | Some (Finished x) \<Rightarrow> wait_outcome s)"

definition exc_info :: "('a, 'v, 'e) threaded \<Rightarrow> ('v, 'e) reply \<times> ('a, 'v, 'e) threaded" where
  "exc_info s =
     (case p_exc_info s of
        None \<Rightarrow> (Raises (AttributeError ''_exc_info''), s)
      | Some x \<Rightarrow> (Ret_exc_info x, s))"

subsection \<open>Executions\<close>

text \<open>
  The steps threads can take on one object. A synchronous call \<^verbatim>\<open>__call__\<close> is
  \<open>Call_start\<close>, the \<open>Poll_start\<close> steps of its loop, and then \<open>Call_wait False\<close>.
\<close>

datatype 'a event =
    Call_start 'a real bool
  | Poll_start
  | Worker real
  | Call_wait bool
  | Call_sample real
  | Call_stop
  | Call_stopping
  | Call_started
  | Call_exc_info

fun step :: "'a event \<Rightarrow> ('a, 'v, 'e) threaded \<Rightarrow> ('v, 'e) reply \<times> ('a, 'v, 'e) threaded" where
  "step (Call_start a t ok) s = start a t ok s"
| "step Poll_start s = start_poll s"
| "step (Worker t) s = worker_step t s"
| "step (Call_wait timed_out) s = wait timed_out s"
| "step (Call_sample t) s =
     (if p_lock s \<noteq> Unlocked then (Disabled, s)
      else (case sample t s of
              (Inl e, s') \<Rightarrow> (Raises e, s')
            | (Inr u, s') \<Rightarrow> (Ret_none, s')))"
| "step Call_stop s = (Ret_none, stop s)"
| "step Call_stopping s = (Ret_bool (stopping s), s)"
| "step Call_started s = (Ret_bool (started s), s)"
| "step Call_exc_info s = exc_info s"

fun exec :: "'a event list \<Rightarrow> ('a, 'v, 'e) threaded \<Rightarrow> ('a, 'v, 'e) threaded" where
  "exec [] s = s"
| "exec (e # es) s = exec es (snd (step e s))"

fun replies :: "'a event list \<Rightarrow> ('a, 'v, 'e) threaded \<Rightarrow> ('v, 'e) reply list" where
  "replies [] s = []"
| "replies (e # es) s = fst (step e s) # replies es (snd (step e s))"

subsection \<open>Callables of the example script and of the documented scenarios\<close>

text \<open>
  \<^verbatim>\<open>do_work(pt, interval, count)\<close> of \<^verbatim>\<open>thread_example.py\<close>: it declares \<^verbatim>\<open>count\<close> steps,
  then polls \<^verbatim>\<open>stopping()\<close>, sleeps and calls \<^verbatim>\<open>update(1)\<close>, \<^verbatim>\<open>count\<close> times. The
  sleep does nothing to the object. The arguments are the pair of interval and count.
\<close>

fun do_work_loop :: "nat \<Rightarrow> ('v, 'e) prog" where
  "do_work_loop 0 = Return None"
| "do_work_loop (Suc n) = Stopping (Return None) (Update 1 (do_work_loop n))"

definition do_work :: "nat \<times> nat \<Rightarrow> ('v, 'e) prog" where
  "do_work a = Set_goal (Some (int (snd a))) 0 (do_work_loop (snd a))"

text \<open>A callable that returns at once and never declares a goal.\<close>

definition returns_at_once :: "unit \<Rightarrow> (unit, string) prog" where
  "returns_at_once u = Return None"

text \<open>A callable that declares one step and raises.\<close>

definition raises_boom :: "unit \<Rightarrow> (unit, string) prog" where
  "raises_boom u = Set_goal (Some 1) 0 (Raise ''boom'')"

text \<open>A callable that declares five steps of which ten are done, and returns.\<close>

definition goal_overshoot :: "unit \<Rightarrow> (unit, string) prog" where
  "goal_overshoot u = Set_goal (Some 5) 10 (Return None)"

text \<open>
  \<^verbatim>\<open>do_work\<close> started with a count of two, up to the return of \<^verbatim>\<open>start\<close>: the worker
  has entered the callable and declared its goal.
\<close>

definition do_work_started :: "(nat \<times> nat, unit, string) threaded" where
  "do_work_started =
     exec [Call_start (0, Suc (Suc 0)) 0 True, Worker 0, Worker 1, Poll_start] (Thread None do_work)"

text \<open>
  \<^verbatim>\<open>do_work\<close> with a count of two after its first \<^verbatim>\<open>update(1)\<close>: one step of two done.
\<close>

definition do_work_half :: "(nat \<times> nat, unit, string) threaded" where
  "do_work_half = exec [Worker 2, Worker 3] do_work_started"

text \<open>A callable that declares its argument as the goal, reports it done and returns it.\<close>

definition counts_to :: "nat \<Rightarrow> (nat, string) prog" where
  "counts_to n = Set_goal (Some (int n)) 0 (Update (int n) (Return (Some n)))"

text \<open>A complete run of it: the worker has finished its bookkeeping, nobody has waited yet.\<close>

definition counts_to_finished :: "(nat, nat, string) threaded" where
  "counts_to_finished =
     exec [Call_start 3 0 True, Worker 0, Worker 1, Poll_start, Worker 2, Worker 3, Worker 4, Worker 5]
       (Thread None counts_to)"


text \<open>A run of the raising callable, up to the return of \<^verbatim>\<open>start\<close>; the worker has ended.\<close>

definition raises_boom_finished :: "(unit, unit, string) threaded" where
  "raises_boom_finished =
     exec [Call_start () 0 True, Worker 0, Worker 1, Worker 2, Poll_start] (Thread None raises_boom)"

subsection \<open>Notions of the statements\<close>

text \<open>The worker thread is entering \<^verbatim>\<open>run\<close> or is inside the callable.\<close>

fun in_run :: "('a, 'v, 'e) thread option \<Rightarrow> bool" where
  "in_run (Some (Alive (At_run a))) = True"
| "in_run (Some (Alive (In_target p))) = True"
| "in_run w = False"

text \<open>The range that \<^verbatim>\<open>update\<close> clamps \<^verbatim>\<open>_done\<close> to.\<close>

definition in_range :: "('a, 'v, 'e) threaded \<Rightarrow> bool" where
  "in_range s = (0 \<le> p_done s \<and> p_done s \<le> p_steps s)"

text \<open>A sequence of calls of \<^verbatim>\<open>update\<close>, each with its delta and its clock reading.\<close>

fun updates :: "(int \<times> real) list \<Rightarrow> ('a, 'v, 'e) threaded \<Rightarrow> ('a, 'v, 'e) threaded" where
  "updates [] s = s"
| "updates (x # xs) s = updates xs (update (fst x) (snd x) s)"

text \<open>The object without the eight attributes that \<^verbatim>\<open>sample\<close> assigns.\<close>

definition persistent :: "('a, 'v, 'e) threaded \<Rightarrow> ('a, 'v, 'e) threaded" where
  "persistent s =
     s\<lparr>sampled := None, updated := None, steps := None, done_pub := None,
       pcdone := None, ttg := None, eta := None, elapsed := None\<rparr>"

text \<open>The eight attributes that \<^verbatim>\<open>sample\<close> assigns.\<close>

definition snapshot ::
  "('a, 'v, 'e) threaded \<Rightarrow>
     real option \<times> real option \<times> int option \<times> int option \<times> int option \<times>
     real option \<times> real option \<times> real option" where
  "snapshot s =
     (sampled s, updated s, steps s, done_pub s, pcdone s, ttg s, eta s, elapsed s)"

text \<open>No event of the list is a call of \<^verbatim>\<open>sample\<close>.\<close>

fun no_sample :: "'a event list \<Rightarrow> bool" where
  "no_sample [] = True"
| "no_sample (Call_sample t # es) = False"
| "no_sample (e # es) = no_sample es"

text \<open>The event is the worker's call of \<^verbatim>\<open>set_goal\<close>.\<close>

fun sets_goal :: "'a event \<Rightarrow> ('a, 'v, 'e) threaded \<Rightarrow> bool" where
  "sets_goal (Worker t) s =
     (case p_worker s of
        Some (Alive (In_target (Set_goal st dn k))) \<Rightarrow> True
      | _ \<Rightarrow> False)"
| "sets_goal e s = False"

text \<open>Some event of the execution is the worker's call of \<^verbatim>\<open>set_goal\<close>.\<close>

fun calls_goal :: "'a event list \<Rightarrow> ('a, 'v, 'e) threaded \<Rightarrow> bool" where
  "calls_goal [] s = False"
| "calls_goal (e # es) s = (sets_goal e s \<or> calls_goal es (snd (step e s)))"

text \<open>
  The event stores an outcome kind in the slot: after it \<^verbatim>\<open>_return\<close> is
  \<^verbatim>\<open>RETURN_VALUE\<close> or \<^verbatim>\<open>RETURN_EXCEPTION\<close>, and it was not that before.
\<close>

definition stores_outcome :: "'a event \<Rightarrow> ('a, 'v, 'e) threaded \<Rightarrow> bool" where
  "stores_outcome ev s =
     (p_return (snd (step ev s)) \<noteq> p_return s \<and>
      (p_return (snd (step ev s)) = Some RETURN_VALUE \<or>
       p_return (snd (step ev s)) = Some RETURN_EXCEPTION))"

text \<open>How many events of the execution store an outcome kind.\<close>

fun outcome_stores :: "'a event list \<Rightarrow> ('a, 'v, 'e) threaded \<Rightarrow> nat" where
  "outcome_stores [] s = 0"
| "outcome_stores (ev # evs) s =
     (if stores_outcome ev s then 1 else 0) + outcome_stores evs (snd (step ev s))"

text \<open>No event of the list enters \<^verbatim>\<open>start\<close>: the events belong to one run at most.\<close>

fun no_start :: "'a event list \<Rightarrow> bool" where
  "no_start [] = True"
| "no_start (Call_start a t ok # es) = False"
| "no_start (e # es) = no_start es"

text \<open>While the worker thread is inside the callable, the outcome slot holds \<^verbatim>\<open>RETURN_NOTHING\<close>.\<close>

definition slot_inv :: "('a, 'v, 'e) threaded \<Rightarrow> bool" where
  "slot_inv s =
     (\<forall>p. p_worker s = Some (Alive (In_target p)) \<longrightarrow> p_return s = Some RETURN_NOTHING)"

text \<open>
  What holds from the entry of \<^verbatim>\<open>start\<close> on an object \<open>s0\<close> for as long as the worker
  has not called \<^verbatim>\<open>set_goal\<close>.
\<close>

definition handshake_inv :: "('a, 'v, 'e) threaded \<Rightarrow> ('a, 'v, 'e) threaded \<Rightarrow> bool" where
  "handshake_inv s0 s =
     (\<not> p_started s \<and> (p_lock s = Unlocked \<longrightarrow> \<not> is_alive s) \<and>
      (p_lock s \<noteq> Unlocked \<longrightarrow> p_running s) \<and>
      p_worker s \<noteq> Some (Alive At_bookkeeping) \<and>
      p_steps s = p_steps s0 \<and> p_done s = p_done s0 \<and> p_updated s = p_updated s0)"

section \<open>Properties\<close>

subsection \<open>Evaluating concrete executions\<close>

lemmas method_defs =
  init_def Thread_def set_goal_def update_def stop_def stopping_def started_def
  sample_def sample_tail_def worker_step_def start_def is_alive_def start_poll_def
  wait_outcome_def wait_def exc_info_def

lemma do_work_started_eq:
  "do_work_started =
     \<lparr> p_target = Some do_work, name = None, p_lock = Unlocked,
       p_stopping = False, p_started = True, p_running = True,
       p_steps = 2, p_done = 0,
       p_updated = Some 1, since = Some 0,
       p_return = Some RETURN_NOTHING, p_result = Some None, p_exc_info = Some None,
       p_worker = Some (Alive (In_target (do_work_loop (Suc (Suc 0))))),
       sampled = None, updated = None, steps = None, done_pub = None,
       pcdone = None, ttg = None, eta = None, elapsed = None \<rparr>"
  by (simp add: do_work_started_def method_defs do_work_def)

text \<open>
  A complete run of \<^verbatim>\<open>do_work\<close> with a count of two, then \<^verbatim>\<open>wait()\<close> and
  \<^verbatim>\<open>sample()\<close>: the callable's \<^verbatim>\<open>None\<close> is returned and the snapshot shows two steps of
  two done, one hundred percent.
\<close>

lemma do_work_completes:
  "replies [Call_start (0, Suc (Suc 0)) 0 True, Worker 0, Worker 1, Poll_start,
            Worker 2, Worker 3, Worker 4, Worker 5, Worker 6, Worker 7, Worker 8,
            Call_wait False, Call_sample 9]
     (Thread None do_work :: (nat \<times> nat, unit, string) threaded) =
     [Stepped, Stepped, Stepped, Ret_none,
      Stepped, Stepped, Stepped, Stepped, Stepped, Stepped, Stepped,
      Ret_value None, Ret_none]"
  "done_pub (exec [Call_start (0, Suc (Suc 0)) 0 True, Worker 0, Worker 1, Poll_start,
            Worker 2, Worker 3, Worker 4, Worker 5, Worker 6, Worker 7, Worker 8,
            Call_wait False, Call_sample 9]
     (Thread None do_work :: (nat \<times> nat, unit, string) threaded)) = Some 2"
  "pcdone (exec [Call_start (0, Suc (Suc 0)) 0 True, Worker 0, Worker 1, Poll_start,
            Worker 2, Worker 3, Worker 4, Worker 5, Worker 6, Worker 7, Worker 8,
            Call_wait False, Call_sample 9]
     (Thread None do_work :: (nat \<times> nat, unit, string) threaded)) = Some 100"
  by (simp_all add: method_defs do_work_def)

subsection \<open>What each step can change\<close>

lemma worker_step_cases
  [case_names Disabled No_target Enter Goal Upd Stop_poll Ret Exc No_goal To_bookkeeping Bookkeeping]:
  obtains "worker_step t s = (Disabled, s)"
  | a where "p_worker s = Some (Alive (At_run a))" and "p_target s = None"
      and "worker_step t s =
             (Stepped, s\<lparr>p_worker := Some (Finished (Some (NameError ''NothingToDoBug'')))\<rparr>)"
  | a f where "p_worker s = Some (Alive (At_run a))" and "p_target s = Some f"
      and "worker_step t s =
             (Stepped, s\<lparr>p_return := Some RETURN_NOTHING, p_result := Some None,
                         p_exc_info := Some None,
                         p_worker := Some (Alive (In_target (f a)))\<rparr>)"
  | st dn k where "p_worker s = Some (Alive (In_target (Set_goal st dn k)))"
      and "worker_step t s =
             (Stepped, (set_goal st dn t s)\<lparr>p_worker := Some (Alive (In_target k))\<rparr>)"
  | d k where "p_worker s = Some (Alive (In_target (Update d k)))" and "p_lock s = Unlocked"
      and "worker_step t s =
             (Stepped, (update d t s)\<lparr>p_worker := Some (Alive (In_target k))\<rparr>)"
  | k1 k2 where "p_worker s = Some (Alive (In_target (Stopping k1 k2)))"
      and "worker_step t s =
             (Stepped, s\<lparr>p_worker := Some (Alive (In_target (if stopping s then k1 else k2)))\<rparr>)"
  | r where "p_worker s = Some (Alive (In_target (Return r)))"
      and "worker_step t s =
             (Stepped, s\<lparr>p_return := Some RETURN_VALUE, p_result := Some r,
                         p_worker := Some (Alive At_started_check)\<rparr>)"
  | e where "p_worker s = Some (Alive (In_target (Raise e)))"
      and "worker_step t s =
             (Stepped, s\<lparr>p_return := Some RETURN_EXCEPTION,
                         p_worker := Some (Finished (Some (NameError ''sys'')))\<rparr>)"
  | "p_worker s = Some (Alive At_started_check)" and "\<not> p_started s"
      and "worker_step t s = (Stepped, s\<lparr>p_worker := Some (Finished None)\<rparr>)"
  | "p_worker s = Some (Alive At_started_check)" and "p_started s"
      and "worker_step t s = (Stepped, s\<lparr>p_worker := Some (Alive At_bookkeeping)\<rparr>)"
  | "p_worker s = Some (Alive At_bookkeeping)" and "p_lock s = Unlocked"
      and "worker_step t s =
             (Stepped, (update 0 t s)\<lparr>p_started := False, p_running := False,
                                        p_worker := Some (Finished None)\<rparr>)"
proof (cases "p_worker s")
  case None
  then have "worker_step t s = (Disabled, s)" by (simp add: worker_step_def)
  then show ?thesis using that(1) by blast
next
  case (Some w)
  show ?thesis
  proof (cases w)
    case Unstarted
    then have "worker_step t s = (Disabled, s)" using Some by (simp add: worker_step_def)
    then show ?thesis using that(1) by blast
  next
    case (Finished x)
    then have "worker_step t s = (Disabled, s)" using Some by (simp add: worker_step_def)
    then show ?thesis using that(1) by blast
  next
    case (Alive q)
    show ?thesis
    proof (cases q)
      case (At_run a)
      show ?thesis
      proof (cases "p_target s")
        case None
        then show ?thesis using that(2) [of a] Some Alive At_run by (simp add: worker_step_def)
      next
        case (Some f)
        then show ?thesis using that(3) [of a f] \<open>p_worker s = Some w\<close> Alive At_run
          by (simp add: worker_step_def)
      qed
    next
      case (In_target p)
      have ws: "worker_step t s = target_step t p s"
        using Some Alive In_target by (simp add: worker_step_def)
      have pw: "p_worker s = Some (Alive (In_target p))"
        using Some Alive In_target by simp
      show ?thesis
      proof (cases p)
        case (Return r)
        then show ?thesis using that(7) [of r] ws pw by simp
      next
        case (Raise e)
        then show ?thesis using that(8) [of e] ws pw by simp
      next
        case (Set_goal st dn k)
        then show ?thesis using that(4) [of st dn k] ws pw by simp
      next
        case (Update d k)
        show ?thesis
        proof (cases "p_lock s = Unlocked")
          case True
          then show ?thesis using that(5) [of d k] ws pw Update by simp
        next
          case False
          then show ?thesis using that(1) ws Update by simp
        qed
      next
        case (Stopping k1 k2)
        then show ?thesis using that(6) [of k1 k2] ws pw by simp
      qed
    next
      case At_started_check
      then show ?thesis using that(9) that(10) Some Alive
        by (cases "p_started s") (simp_all add: worker_step_def)
    next
      case At_bookkeeping
      then show ?thesis using that(1) that(11) Some Alive
        by (cases "p_lock s = Unlocked") (simp_all add: worker_step_def)
    qed
  qed
qed

lemma snd_step_sample:
  "snd (step (Call_sample t) s) = (if p_lock s \<noteq> Unlocked then s else snd (sample t s))"
  by (simp split: prod.splits sum.splits)

lemma sample_frame:
  "p_started (snd (sample t s)) = p_started s"
  "p_stopping (snd (sample t s)) = p_stopping s"
  "p_lock (snd (sample t s)) = p_lock s"
  "p_running (snd (sample t s)) = p_running s"
  "p_worker (snd (sample t s)) = p_worker s"
  "p_steps (snd (sample t s)) = p_steps s"
  "p_done (snd (sample t s)) = p_done s"
  "p_updated (snd (sample t s)) = p_updated s"
  "p_exc_info (snd (sample t s)) = p_exc_info s"
  "p_return (snd (sample t s)) = p_return s"
  by (simp_all add: sample_def sample_tail_def Let_def split: option.splits)

text \<open>
  The steps of the callers other than the entry of \<^verbatim>\<open>start\<close> and its loop leave the
  worker, the events, the progress counters and the captured exception as they are.
\<close>

lemma wait_frame:
  "p_started (snd (wait b s)) = p_started s"
  "p_stopping (snd (wait b s)) = p_stopping s"
  "p_lock (snd (wait b s)) = p_lock s"
  "p_running (snd (wait b s)) = p_running s"
  "p_worker (snd (wait b s)) = p_worker s"
  "p_steps (snd (wait b s)) = p_steps s"
  "p_done (snd (wait b s)) = p_done s"
  "p_updated (snd (wait b s)) = p_updated s"
  "p_exc_info (snd (wait b s)) = p_exc_info s"
  by (simp_all add: wait_def wait_outcome_def split: option.splits thread.splits ret.splits)

lemma exc_info_state: "snd (exc_info s) = s"
  by (simp add: exc_info_def split: option.splits)

subsection \<open>start on a running object\<close>

text \<open>
  C3. On an object whose \<^verbatim>\<open>_running\<close> flag is set, \<^verbatim>\<open>start\<close> raises
  \<^verbatim>\<open>AlreadyStartedError\<close> and leaves every attribute of the object as it was. The test
  is made with the lock held: while another thread is still inside \<^verbatim>\<open>start\<close> and holds
  the lock, the call waits for it and changes nothing either.
\<close>

theorem start_running_AlreadyStartedError:
  "p_running s \<Longrightarrow>
   step (Call_start a t ok) s =
     (if p_lock s = Unlocked then Raises AlreadyStartedError else Disabled, s)"
  by (simp add: start_def)

theorem start_running_AlreadyStartedError_witness:
  "p_running do_work_started \<and>
   step (Call_start (0, 5) 7 True) do_work_started = (Raises AlreadyStartedError, do_work_started)"
proof -
  have r: "p_running do_work_started" by (simp add: do_work_started_eq)
  have l: "p_lock do_work_started = Unlocked" by (simp add: do_work_started_eq)
  show ?thesis
    using r l start_running_AlreadyStartedError [OF r, of "(0, 5)" 7 True] by simp
qed

subsection \<open>start when the callable never declares a goal\<close>

lemma handshake_inv_worker_step:
  assumes "handshake_inv s0 s" and "\<not> sets_goal (Worker t) s"
  shows "handshake_inv s0 (snd (worker_step t s))"
proof (cases rule: worker_step_cases [of t s])
  case Disabled
  then show ?thesis using assms(1) by simp
next
  case (No_target a)
  then show ?thesis using assms(1) by (simp add: handshake_inv_def is_alive_def)
next
  case (Enter a f)
  then show ?thesis using assms(1) by (simp add: handshake_inv_def is_alive_def)
next
  case (Goal st dn k)
  then show ?thesis using assms(2) by simp
next
  case (Upd d k)
  then show ?thesis using assms(1) by (simp add: handshake_inv_def is_alive_def)
next
  case (Stop_poll k1 k2)
  then show ?thesis using assms(1) by (simp add: handshake_inv_def is_alive_def)
next
  case (Ret r)
  then show ?thesis using assms(1) by (simp add: handshake_inv_def is_alive_def)
next
  case (Exc e)
  then show ?thesis using assms(1) by (simp add: handshake_inv_def is_alive_def)
next
  case No_goal
  then show ?thesis using assms(1) by (simp add: handshake_inv_def is_alive_def)
next
  case To_bookkeeping
  then show ?thesis using assms(1) by (simp add: handshake_inv_def)
next
  case Bookkeeping
  then show ?thesis using assms(1) by (simp add: handshake_inv_def)
qed

lemma handshake_inv_step:
  assumes "handshake_inv s0 s" and "\<not> sets_goal e s"
  shows "handshake_inv s0 (snd (step e s))"
proof (cases e)
  case (Call_start a t ok)
  then show ?thesis using assms(1)
    by (auto simp: start_def handshake_inv_def is_alive_def Let_def)
next
  case Poll_start
  then show ?thesis using assms(1)
    by (auto simp: start_poll_def handshake_inv_def is_alive_def split: lock.splits)
next
  case (Worker t)
  then show ?thesis using assms handshake_inv_worker_step by auto
next
  case (Call_wait b)
  then show ?thesis using assms(1)
    by (simp add: handshake_inv_def is_alive_def wait_frame)
next
  case (Call_sample t)
  then show ?thesis using assms(1)
    by (simp add: snd_step_sample handshake_inv_def is_alive_def sample_frame del: step.simps)
next
  case Call_stop
  then show ?thesis using assms(1) by (simp add: handshake_inv_def is_alive_def stop_def)
next
  case Call_stopping
  then show ?thesis using assms(1) by simp
next
  case Call_started
  then show ?thesis using assms(1) by simp
next
  case Call_exc_info
  then show ?thesis using assms(1) by (simp add: exc_info_state)
qed

lemma handshake_inv_exec:
  "handshake_inv s0 s \<Longrightarrow> \<not> calls_goal evs s \<Longrightarrow> handshake_inv s0 (exec evs s)"
proof (induction evs arbitrary: s)
  case Nil
  then show ?case by simp
next
  case (Cons e es)
  from Cons.prems have "handshake_inv s0 (snd (step e s))"
    using handshake_inv_step by auto
  moreover from Cons.prems have "\<not> calls_goal es (snd (step e s))" by simp
  ultimately show ?case using Cons.IH by simp
qed

lemma handshake_inv_start:
  assumes "p_lock s = Unlocked" and "\<not> p_running s"
  shows "handshake_inv s (snd (step (Call_start a t True) s))"
  using assms by (simp add: start_def handshake_inv_def is_alive_def Let_def)

text \<open>
  C2. \<^verbatim>\<open>start\<close> is entered on an object that is not running, the worker thread is
  spawned, and the threads interleave in any way (\<open>evs\<close>) in which the worker never calls
  \<^verbatim>\<open>set_goal\<close>. Then, in every state \<open>s2\<close> reached:
  \<^item> no step of the loop of \<^verbatim>\<open>start\<close> returns normally; a step raises
    \<^verbatim>\<open>ActionFailedError\<close> exactly when it is the liveness test and the worker thread is not
    alive, and it then clears \<^verbatim>\<open>_running\<close> and releases the lock; a step at the wait goes
    on to the liveness test. So once the worker has terminated, the call of \<^verbatim>\<open>start\<close>
    raises \<^verbatim>\<open>ActionFailedError\<close> after at most two steps of its own and leaves
    \<^verbatim>\<open>_running\<close> false;
  \<^item> the final bookkeeping of the worker has not run: the worker is never at it,
    \<^verbatim>\<open>_running\<close> stays set for as long as \<^verbatim>\<open>start\<close> is in progress, \<^verbatim>\<open>_started\<close> is
    not set, and \<^verbatim>\<open>_steps\<close>, \<^verbatim>\<open>_done\<close> and \<^verbatim>\<open>_updated\<close> are as before the call.
\<close>

theorem start_without_goal_ActionFailedError:
  assumes "p_lock s = Unlocked" and "\<not> p_running s"
    and "s1 = snd (step (Call_start a t True) s)"
    and "\<not> calls_goal evs s1"
    and "s2 = exec evs s1"
  shows "fst (step Poll_start s2) \<noteq> Ret_none \<and>
     (fst (step Poll_start s2) = Raises ActionFailedError \<longleftrightarrow>
        p_lock s2 = Start_checks \<and> \<not> is_alive s2) \<and>
     (p_lock s2 = Start_checks \<and> \<not> is_alive s2 \<longrightarrow>
        step Poll_start s2 =
          (Raises ActionFailedError, s2\<lparr>p_running := False, p_lock := Unlocked\<rparr>)) \<and>
     (p_lock s2 = Start_waits \<longrightarrow>
        step Poll_start s2 = (Stepped, s2\<lparr>p_lock := Start_checks\<rparr>)) \<and>
     (p_lock s2 = Start_waits \<and> \<not> is_alive s2 \<longrightarrow>
        replies [Poll_start, Poll_start] s2 = [Stepped, Raises ActionFailedError] \<and>
        exec [Poll_start, Poll_start] s2 = s2\<lparr>p_running := False, p_lock := Unlocked\<rparr>) \<and>
     (p_lock s2 \<noteq> Unlocked \<longrightarrow> p_running s2) \<and>
     \<not> p_started s2 \<and> p_worker s2 \<noteq> Some (Alive At_bookkeeping) \<and>
     p_steps s2 = p_steps s \<and> p_done s2 = p_done s \<and> p_updated s2 = p_updated s"
proof -
  have "handshake_inv s s1"
    unfolding assms(3) using assms(1,2) by (rule handshake_inv_start)
  then have inv: "handshake_inv s s2"
    using assms(4,5) handshake_inv_exec by blast
  then have ns: "\<not> p_started s2" by (simp add: handshake_inv_def)
  have poll: "fst (step Poll_start s2) \<noteq> Ret_none \<and>
     (fst (step Poll_start s2) = Raises ActionFailedError \<longleftrightarrow>
        p_lock s2 = Start_checks \<and> \<not> is_alive s2)"
    using ns by (cases "p_lock s2") (simp_all add: start_poll_def)
  have fail: "p_lock s2 = Start_checks \<and> \<not> is_alive s2 \<longrightarrow>
        step Poll_start s2 =
          (Raises ActionFailedError, s2\<lparr>p_running := False, p_lock := Unlocked\<rparr>)"
    by (simp add: start_poll_def)
  have next_poll: "p_lock s2 = Start_waits \<longrightarrow>
        step Poll_start s2 = (Stepped, s2\<lparr>p_lock := Start_checks\<rparr>)"
    using ns by (simp add: start_poll_def)
  have two_polls: "p_lock s2 = Start_waits \<and> \<not> is_alive s2 \<longrightarrow>
        replies [Poll_start, Poll_start] s2 = [Stepped, Raises ActionFailedError] \<and>
        exec [Poll_start, Poll_start] s2 = s2\<lparr>p_running := False, p_lock := Unlocked\<rparr>"
    using ns by (simp add: start_poll_def is_alive_def)
  show ?thesis
    using poll fail next_poll two_polls inv unfolding handshake_inv_def by blast
qed

theorem start_without_goal_ActionFailedError_witness:
  "p_lock (Thread None returns_at_once) = Unlocked \<and>
   \<not> p_running (Thread None returns_at_once) \<and>
   \<not> calls_goal [Worker 0, Worker 0, Worker 0, Poll_start]
       (snd (step (Call_start () 0 True) (Thread None returns_at_once))) \<and>
   \<not> is_alive (exec [Worker 0, Worker 0, Worker 0, Poll_start]
       (snd (step (Call_start () 0 True) (Thread None returns_at_once)))) \<and>
   fst (step Poll_start (exec [Worker 0, Worker 0, Worker 0, Poll_start]
       (snd (step (Call_start () 0 True) (Thread None returns_at_once))))) =
     Raises ActionFailedError \<and>
   \<not> p_running (snd (step Poll_start (exec [Worker 0, Worker 0, Worker 0, Poll_start]
       (snd (step (Call_start () 0 True) (Thread None returns_at_once)))))) \<and>
   p_updated (exec [Worker 0, Worker 0, Worker 0, Poll_start]
       (snd (step (Call_start () 0 True) (Thread None returns_at_once)))) = None"
proof -
  have a: "p_lock (Thread None returns_at_once) = Unlocked"
    by (simp add: method_defs)
  have b: "\<not> p_running (Thread None returns_at_once)"
    by (simp add: method_defs)
  have c: "\<not> calls_goal [Worker 0, Worker 0, Worker 0, Poll_start]
       (snd (step (Call_start () 0 True) (Thread None returns_at_once)))"
    by (simp add: method_defs returns_at_once_def)
  have d: "\<not> is_alive (exec [Worker 0, Worker 0, Worker 0, Poll_start]
       (snd (step (Call_start () 0 True) (Thread None returns_at_once))))"
    by (simp add: method_defs returns_at_once_def)
  have e: "p_lock (exec [Worker 0, Worker 0, Worker 0, Poll_start]
       (snd (step (Call_start () 0 True) (Thread None returns_at_once)))) = Start_checks"
    by (simp add: method_defs returns_at_once_def)
  have f: "p_updated (Thread None returns_at_once) = None"
    by (simp add: method_defs)
  note th = start_without_goal_ActionFailedError [OF a b refl c refl]
  show ?thesis
    using a b c d e f th by (simp del: step.simps exec.simps calls_goal.simps)
qed

subsection \<open>The clamp of update\<close>

lemma update_in_range: "0 \<le> p_steps s \<Longrightarrow> in_range (update d t s)"
  by (simp add: update_def in_range_def Let_def)

lemma updates_in_range: "in_range s \<Longrightarrow> in_range (updates xs s)"
proof (induction xs arbitrary: s)
  case Nil
  then show ?case by simp
next
  case (Cons x xs)
  from Cons.prems have "0 \<le> p_steps s" by (simp add: in_range_def)
  then have "in_range (update (fst x) (snd x) s)" by (rule update_in_range)
  then show ?case using Cons.IH by simp
qed

lemma set_goal_in_range:
  "in_range (set_goal st dn t s) \<longleftrightarrow>
     0 \<le> dn \<and> dn \<le> (case st of None \<Rightarrow> p_steps s | Some n \<Rightarrow> n)"
  by (cases st) (simp_all add: set_goal_def in_range_def)

text \<open>
  C4. The claim is that \<open>0 \<le> _done \<le> _steps\<close> holds after every operation that writes
  \<^verbatim>\<open>_done\<close>, \<^verbatim>\<open>set_goal\<close> included. \<^verbatim>\<open>set_goal\<close> stores its argument as it is: after
  \<^verbatim>\<open>set_goal(5, 10)\<close> the counter is above the goal, and \<^verbatim>\<open>sample\<close> shows it.
\<close>

theorem set_goal_done_above_steps:
  "done_pub (exec [Call_start () 0 True, Worker 0, Worker 0, Poll_start, Call_sample 1]
      (Thread None goal_overshoot)) = Some 10 \<and>
   steps (exec [Call_start () 0 True, Worker 0, Worker 0, Poll_start, Call_sample 1]
      (Thread None goal_overshoot)) = Some 5 \<and>
   \<not> in_range (exec [Call_start () 0 True, Worker 0, Worker 0] (Thread None goal_overshoot))"
  by (simp add: method_defs goal_overshoot_def in_range_def)

text \<open>
  C4, as amended. \<^verbatim>\<open>update\<close> clamps: on an object with \<open>0 \<le> _steps\<close>, whatever the delta
  and whatever \<^verbatim>\<open>_done\<close> was, \<open>0 \<le> _done \<le> _steps\<close> holds after \<^verbatim>\<open>update\<close>, and so it
  is kept by every sequence of calls of \<^verbatim>\<open>update\<close>. \<^verbatim>\<open>set_goal(steps, done)\<close> stores
  \<^verbatim>\<open>done\<close> unclamped: the range holds after it exactly when \<open>0 \<le> done\<close> and \<^verbatim>\<open>done\<close> is
  at most the goal then in force (\<^verbatim>\<open>steps\<close>, or the old \<^verbatim>\<open>_steps\<close> when none is given).
\<close>

theorem update_clamps_done:
  "(0 \<le> p_steps s \<longrightarrow> in_range (update d t s)) \<and>
   (in_range s \<longrightarrow> in_range (updates xs s)) \<and>
   (in_range (set_goal st dn t' s) \<longleftrightarrow>
      0 \<le> dn \<and> dn \<le> (case st of None \<Rightarrow> p_steps s | Some n \<Rightarrow> n))"
  using update_in_range updates_in_range set_goal_in_range by blast

theorem update_clamps_done_witness:
  "0 \<le> p_steps do_work_started \<and> in_range do_work_started \<and>
   in_range (update 7 3 do_work_started) \<and>
   in_range (updates [(5, 2), (-9, 3), (1, 4)] do_work_started) \<and>
   in_range (set_goal (Some 4) 3 5 do_work_started) \<and>
   \<not> in_range (set_goal None 3 5 do_work_started)"
proof -
  have a: "0 \<le> p_steps do_work_started" by (simp add: do_work_started_eq)
  have b: "in_range do_work_started" by (simp add: do_work_started_eq in_range_def)
  have c: "p_steps do_work_started = 2" by (simp add: do_work_started_eq)
  show ?thesis
    using a b c
      update_clamps_done [where s = do_work_started and d = 7 and t = 3
        and xs = "[(5, 2), (-9, 3), (1, 4)]" and st = "Some 4" and dn = 3 and t' = 5]
      update_clamps_done [where s = do_work_started and d = 7 and t = 3
        and xs = "[]" and st = None and dn = 3 and t' = 5]
    by simp
qed

subsection \<open>sample\<close>

text \<open>
  C5. The claim is that \<^verbatim>\<open>sample()\<close> succeeds before any run has started and reports
  \<^verbatim>\<open>pcdone = 0\<close> and \<^verbatim>\<open>ttg = 60\<close>. On a newly constructed object it raises
  \<^verbatim>\<open>AttributeError\<close> instead: \<^verbatim>\<open>__init__\<close> assigns \<^verbatim>\<open>_steps\<close> and \<^verbatim>\<open>_done\<close> but not
  \<^verbatim>\<open>_updated\<close>, which \<^verbatim>\<open>sample\<close> reads in its second assignment. Only \<^verbatim>\<open>sampled\<close>
  has been assigned by then.
\<close>

theorem sample_new_object_AttributeError:
  "step (Call_sample t) (init tg nm) =
     (Raises (AttributeError ''_updated''), (init tg nm)\<lparr>sampled := Some t\<rparr>)"
  by (simp add: sample_def init_def)

lemma sample_persistent: "persistent (snd (sample t s)) = persistent s"
  by (simp add: sample_def sample_tail_def persistent_def Let_def split: option.splits)

lemma fst_step_sample:
  "fst (step (Call_sample t) s) = Ret_none \<longleftrightarrow> p_lock s = Unlocked \<and> fst (sample t s) = Inr ()"
  by (simp split: prod.splits sum.splits)

lemma sample_ok_copies:
  assumes "fst (sample t s) = Inr ()"
  shows "sampled (snd (sample t s)) = Some t"
    and "updated (snd (sample t s)) = p_updated s"
    and "steps (snd (sample t s)) = Some (p_steps s)"
    and "done_pub (snd (sample t s)) = Some (p_done s)"
    and "pcdone (snd (sample t s)) =
           Some (if p_steps s \<noteq> 0 then p_done s * 100 div p_steps s else 0)"
  using assms
  by (simp_all add: sample_def sample_tail_def Let_def split: option.splits if_splits)

lemma sample_ok_fallback:
  assumes "fst (sample t s) = Inr ()" and "pcdone (snd (sample t s)) = Some 0"
  shows "ttg (snd (sample t s)) = Some 60"
  using assms
  by (simp add: sample_def sample_tail_def Let_def split: option.splits if_splits)

lemma sample_ok_times:
  assumes "fst (sample t s) = Inr ()"
  shows "\<exists>g b. ttg (snd (sample t s)) = Some g \<and> eta (snd (sample t s)) = Some (g + t) \<and>
           since s = Some b \<and> elapsed (snd (sample t s)) = Some (t - b)"
  using assms
  by (simp add: sample_def sample_tail_def Let_def split: option.splits if_splits)

lemma do_work_started_sample: "fst (sample t do_work_started) = Inr ()"
  by (simp add: do_work_started_eq sample_def sample_tail_def)

lemma sample_raises:
  "fst (sample t s) = Inl x \<Longrightarrow> x = AttributeError ''_updated'' \<or> x = AttributeError ''since''"
  by (auto simp: sample_def sample_tail_def Let_def split: option.splits if_splits)

lemma do_work_half_eq:
  "do_work_half =
     \<lparr> p_target = Some do_work, name = None, p_lock = Unlocked,
       p_stopping = False, p_started = True, p_running = True,
       p_steps = 2, p_done = 1,
       p_updated = Some 3, since = Some 0,
       p_return = Some RETURN_NOTHING, p_result = Some None, p_exc_info = Some None,
       p_worker = Some (Alive (In_target (do_work_loop (Suc 0)))),
       sampled = None, updated = None, steps = None, done_pub = None,
       pcdone = None, ttg = None, eta = None, elapsed = None \<rparr>"
  by (simp add: do_work_half_def do_work_started_eq method_defs)

lemma sample_succeeds_iff:
  "fst (sample t s) = Inr () \<longleftrightarrow> p_updated s \<noteq> None \<and> since s \<noteq> None"
  by (auto simp: sample_def sample_tail_def Let_def split: option.splits)

text \<open>
  C6. \<^verbatim>\<open>sample()\<close> produces a snapshot exactly when \<^verbatim>\<open>_updated\<close> and \<^verbatim>\<open>since\<close> have
  been assigned. Every snapshot it produces copies \<^verbatim>\<open>_steps\<close> and \<^verbatim>\<open>_done\<close>; its
  \<^verbatim>\<open>pcdone\<close> is \<open>\<lfloor>done * 100 / steps\<rfloor>\<close> when \<open>steps > 0\<close> and \<open>0\<close> when \<open>steps = 0\<close>; and
  whenever \<^verbatim>\<open>pcdone\<close> is \<open>0\<close>, \<^verbatim>\<open>ttg\<close> is the fixed \<open>60\<close>.
\<close>

theorem sample_percent_done_and_fallback:
  "(fst (sample t s) = Inr () \<longleftrightarrow> p_updated s \<noteq> None \<and> since s \<noteq> None) \<and>
   (fst (sample t s) = Inr () \<longrightarrow>
      steps (snd (sample t s)) = Some (p_steps s) \<and>
      done_pub (snd (sample t s)) = Some (p_done s) \<and>
      (0 < p_steps s \<longrightarrow>
         pcdone (snd (sample t s)) =
           Some \<lfloor>real_of_int (p_done s * 100) / real_of_int (p_steps s)\<rfloor>) \<and>
      (p_steps s = 0 \<longrightarrow> pcdone (snd (sample t s)) = Some 0) \<and>
      (pcdone (snd (sample t s)) = Some 0 \<longrightarrow> ttg (snd (sample t s)) = Some 60))"
proof -
  have fl: "\<lfloor>real_of_int (p_done s * 100) / real_of_int (p_steps s)\<rfloor> = p_done s * 100 div p_steps s"
    by (rule floor_divide_of_int_eq)
  have "steps (snd (sample t s)) = Some (p_steps s) \<and>
      done_pub (snd (sample t s)) = Some (p_done s) \<and>
      (0 < p_steps s \<longrightarrow>
         pcdone (snd (sample t s)) =
           Some \<lfloor>real_of_int (p_done s * 100) / real_of_int (p_steps s)\<rfloor>) \<and>
      (p_steps s = 0 \<longrightarrow> pcdone (snd (sample t s)) = Some 0) \<and>
      (pcdone (snd (sample t s)) = Some 0 \<longrightarrow> ttg (snd (sample t s)) = Some 60)"
    if ok: "fst (sample t s) = Inr ()"
    using sample_ok_copies(3,4,5) [OF ok] sample_ok_fallback [OF ok] fl by simp
  then show ?thesis using sample_succeeds_iff [of t s] by blast
qed

theorem sample_percent_done_and_fallback_witness:
  "p_updated do_work_half = Some 3 \<and> since do_work_half = Some 0 \<and>
   p_steps do_work_half = 2 \<and> p_done do_work_half = 1 \<and>
   fst (sample 5 do_work_half) = Inr () \<and>
   steps (snd (sample 5 do_work_half)) = Some 2 \<and>
   done_pub (snd (sample 5 do_work_half)) = Some 1 \<and>
   pcdone (snd (sample 5 do_work_half)) = Some 50 \<and>
   ttg (snd (sample 5 do_work_half)) = Some 1 \<and>
   p_done do_work_started = 0 \<and>
   fst (sample 5 do_work_started) = Inr () \<and>
   pcdone (snd (sample 5 do_work_started)) = Some 0 \<and>
   ttg (snd (sample 5 do_work_started)) = Some 60"
proof -
  have h: "p_updated do_work_half = Some 3" "since do_work_half = Some 0"
    "p_steps do_work_half = 2" "p_done do_work_half = 1"
    by (simp_all add: do_work_half_eq)
  have fl: "\<lfloor>real_of_int (1 * 100) / real_of_int 2\<rfloor> = (50::int)"
    by (simp add: floor_divide_of_int_eq [of "100" "2", simplified])
  have g: "ttg (snd (sample 5 do_work_half)) = Some 1"
    by (simp add: do_work_half_eq sample_def sample_tail_def)
  have k: "p_updated do_work_started = Some 1" "since do_work_started = Some 0"
    "p_steps do_work_started = 2" "p_done do_work_started = 0"
    by (simp_all add: do_work_started_eq)
  note half = sample_percent_done_and_fallback [of 5 do_work_half]
  note zero = sample_percent_done_and_fallback [of 5 do_work_started]
  have a: "fst (sample 5 do_work_half) = Inr ()" using half h by simp
  have b: "pcdone (snd (sample 5 do_work_half)) = Some 50"
    using half a h fl by simp
  have c: "fst (sample 5 do_work_started) = Inr ()" using zero k by simp
  have d: "pcdone (snd (sample 5 do_work_started)) = Some 0" using zero c k by simp
  have e: "ttg (snd (sample 5 do_work_started)) = Some 60" using zero c d by blast
  show ?thesis using h k a b c d e g half by simp
qed

lemma no_sample_Cons:
  "no_sample (ev # evs) \<longleftrightarrow> (\<forall>t. ev \<noteq> Call_sample t) \<and> no_sample evs"
  by (cases ev) simp_all

lemma worker_step_snapshot: "snapshot (snd (worker_step t s)) = snapshot s"
  by (cases rule: worker_step_cases [of t s])
    (simp_all add: snapshot_def set_goal_def update_def Let_def split: option.splits)

lemma wait_snapshot: "snapshot (snd (wait b s)) = snapshot s"
  by (simp add: snapshot_def wait_def wait_outcome_def
      split: option.splits thread.splits ret.splits)

lemma step_snapshot:
  assumes "\<forall>t. ev \<noteq> Call_sample t"
  shows "snapshot (snd (step ev s)) = snapshot s"
proof (cases ev)
  case (Call_start a t ok)
  then show ?thesis by (simp add: start_def snapshot_def Let_def)
next
  case Poll_start
  then show ?thesis by (simp add: start_poll_def snapshot_def split: lock.splits)
next
  case (Worker t)
  then show ?thesis by (simp add: worker_step_snapshot)
next
  case (Call_wait b)
  then show ?thesis by (simp add: wait_snapshot)
next
  case (Call_sample t)
  then show ?thesis using assms by simp
next
  case Call_stop
  then show ?thesis by (simp add: stop_def snapshot_def)
next
  case Call_stopping
  then show ?thesis by simp
next
  case Call_started
  then show ?thesis by simp
next
  case Call_exc_info
  then show ?thesis by (simp add: exc_info_state)
qed

lemma exec_snapshot: "no_sample evs \<Longrightarrow> snapshot (exec evs s) = snapshot s"
proof (induction evs arbitrary: s)
  case Nil
  then show ?case by simp
next
  case (Cons ev evs)
  from Cons.prems have ns: "\<forall>t. ev \<noteq> Call_sample t" and rest: "no_sample evs"
    by (simp_all add: no_sample_Cons)
  have "snapshot (exec evs (snd (step ev s))) = snapshot (snd (step ev s))"
    using Cons.IH rest by blast
  then show ?case using step_snapshot [OF ns] by simp
qed

lemma fst_step_sample_cases:
  "fst (step (Call_sample t) s) = Disabled \<or> fst (step (Call_sample t) s) = Ret_none \<or>
   fst (step (Call_sample t) s) = Raises (AttributeError ''_updated'') \<or>
   fst (step (Call_sample t) s) = Raises (AttributeError ''since'')"
  using sample_raises [of t s] by (auto split: prod.splits sum.splits)

text \<open>
  C8. The claim is that \<^verbatim>\<open>sample()\<close> returns a snapshot that is no part of the state of
  the object. \<^verbatim>\<open>sample()\<close> returns \<^verbatim>\<open>None\<close> and assigns the snapshot to attributes of
  the object itself: the object after the call differs from the object before it, the
  attributes are still there after further steps of the worker and of the callers, and
  the next \<^verbatim>\<open>sample()\<close> overwrites them.
\<close>

theorem sample_returns_None_writes_object:
  "fst (step (Call_sample 5) do_work_started) = Ret_none \<and>
   snd (step (Call_sample 5) do_work_started) \<noteq> do_work_started \<and>
   steps do_work_started = None \<and>
   steps (exec [Call_sample 5, Worker 6, Call_stop, Call_wait True] do_work_started) = Some 2 \<and>
   sampled (exec [Call_sample 5, Worker 6, Call_stop, Call_wait True] do_work_started) = Some 5 \<and>
   sampled (exec [Call_sample 5, Worker 6, Call_sample 7] do_work_started) = Some 7"
proof -
  have a: "fst (step (Call_sample 5) do_work_started) = Ret_none"
    by (simp add: do_work_started_eq sample_def sample_tail_def)
  have b: "steps (snd (step (Call_sample 5) do_work_started)) = Some 2"
    by (simp add: do_work_started_eq sample_def sample_tail_def)
  have c: "steps do_work_started = None"
    by (simp add: do_work_started_eq)
  have d: "snd (step (Call_sample 5) do_work_started) \<noteq> do_work_started"
  proof
    assume "snd (step (Call_sample 5) do_work_started) = do_work_started"
    then have "steps (snd (step (Call_sample 5) do_work_started)) = steps do_work_started"
      by (rule arg_cong)
    then show False using b c by simp
  qed
  have e: "steps (exec [Call_sample 5, Worker 6, Call_stop, Call_wait True] do_work_started) = Some 2"
    "sampled (exec [Call_sample 5, Worker 6, Call_stop, Call_wait True] do_work_started) = Some 5"
    "sampled (exec [Call_sample 5, Worker 6, Call_sample 7] do_work_started) = Some 7"
    by (simp_all add: do_work_started_eq method_defs)
  show ?thesis using a c d e by blast
qed

text \<open>
  C8, as amended. \<^verbatim>\<open>sample()\<close> returns nothing (it returns \<^verbatim>\<open>None\<close>, raises
  \<^verbatim>\<open>AttributeError\<close>, or waits for the lock). It delivers its snapshot in the eight
  public attributes \<^verbatim>\<open>sampled\<close>, \<^verbatim>\<open>updated\<close>, \<^verbatim>\<open>steps\<close>, \<^verbatim>\<open>done\<close>, \<^verbatim>\<open>pcdone\<close>,
  \<^verbatim>\<open>ttg\<close>, \<^verbatim>\<open>eta\<close> and \<^verbatim>\<open>elapsed\<close> of the object and assigns nothing else: whether
  it succeeds, raises or waits, every other attribute of the object (counters,
  timestamps, flags, events, outcome, worker, lock) is as before. When it succeeds, the
  snapshot holds the clock reading, copies of \<^verbatim>\<open>_updated\<close>, \<^verbatim>\<open>_steps\<close> and \<^verbatim>\<open>_done\<close>,
  a percentage, and \<^verbatim>\<open>eta = ttg + t\<close> and \<^verbatim>\<open>elapsed = t - since\<close>. The snapshot stays
  on the object: no step other than a later \<^verbatim>\<open>sample()\<close> changes any of the eight
  attributes.
\<close>

theorem sample_writes_only_snapshot_attributes:
  "(fst (step (Call_sample t) s) = Disabled \<or> fst (step (Call_sample t) s) = Ret_none \<or>
    fst (step (Call_sample t) s) = Raises (AttributeError ''_updated'') \<or>
    fst (step (Call_sample t) s) = Raises (AttributeError ''since'')) \<and>
   persistent (snd (step (Call_sample t) s)) = persistent s \<and>
   (fst (step (Call_sample t) s) = Ret_none \<longrightarrow>
      sampled (snd (step (Call_sample t) s)) = Some t \<and>
      updated (snd (step (Call_sample t) s)) = p_updated s \<and>
      steps (snd (step (Call_sample t) s)) = Some (p_steps s) \<and>
      done_pub (snd (step (Call_sample t) s)) = Some (p_done s) \<and>
      pcdone (snd (step (Call_sample t) s)) \<noteq> None \<and>
      (\<exists>g b. ttg (snd (step (Call_sample t) s)) = Some g \<and>
             eta (snd (step (Call_sample t) s)) = Some (g + t) \<and>
             since s = Some b \<and>
             elapsed (snd (step (Call_sample t) s)) = Some (t - b))) \<and>
   (no_sample evs \<longrightarrow>
      snapshot (exec evs (snd (step (Call_sample t) s))) =
        snapshot (snd (step (Call_sample t) s)))"
proof -
  have keep: "no_sample evs \<longrightarrow>
      snapshot (exec evs (snd (step (Call_sample t) s))) =
        snapshot (snd (step (Call_sample t) s))"
    using exec_snapshot by blast
  have rest: "persistent (snd (step (Call_sample t) s)) = persistent s \<and>
   (fst (step (Call_sample t) s) = Ret_none \<longrightarrow>
      sampled (snd (step (Call_sample t) s)) = Some t \<and>
      updated (snd (step (Call_sample t) s)) = p_updated s \<and>
      steps (snd (step (Call_sample t) s)) = Some (p_steps s) \<and>
      done_pub (snd (step (Call_sample t) s)) = Some (p_done s) \<and>
      pcdone (snd (step (Call_sample t) s)) \<noteq> None \<and>
      (\<exists>g b. ttg (snd (step (Call_sample t) s)) = Some g \<and>
             eta (snd (step (Call_sample t) s)) = Some (g + t) \<and>
             since s = Some b \<and>
             elapsed (snd (step (Call_sample t) s)) = Some (t - b)))"
  proof (cases "p_lock s = Unlocked")
    case False
    then show ?thesis by simp
  next
    case True
    then have snd_eq: "snd (step (Call_sample t) s) = snd (sample t s)"
      by (simp only: snd_step_sample) simp
    have frame: "persistent (snd (step (Call_sample t) s)) = persistent s"
      by (simp only: snd_eq sample_persistent)
    show ?thesis
    proof (cases "fst (step (Call_sample t) s) = Ret_none")
      case False
      then show ?thesis using frame by blast
    next
      case ret: True
      then have ok: "fst (sample t s) = Inr ()"
        by (simp only: fst_step_sample)
      show ?thesis
        using frame sample_ok_copies [OF ok] sample_ok_times [OF ok]
        by (simp only: snd_eq) simp
    qed
  qed
  show ?thesis using fst_step_sample_cases [of t s] rest keep by blast
qed

theorem sample_writes_only_snapshot_attributes_witness:
  "fst (step (Call_sample 5) do_work_started) = Ret_none \<and>
   persistent (snd (step (Call_sample 5) do_work_started)) = persistent do_work_started \<and>
   sampled (snd (step (Call_sample 5) do_work_started)) = Some 5 \<and>
   updated (snd (step (Call_sample 5) do_work_started)) = Some 1 \<and>
   steps (snd (step (Call_sample 5) do_work_started)) = Some 2 \<and>
   done_pub (snd (step (Call_sample 5) do_work_started)) = Some 0 \<and>
   no_sample [Worker 6, Worker 7, Call_stop, Call_wait True] \<and>
   snapshot (exec [Worker 6, Worker 7, Call_stop, Call_wait True]
     (snd (step (Call_sample 5) do_work_started))) =
     snapshot (snd (step (Call_sample 5) do_work_started))"
proof -
  have r: "fst (step (Call_sample 5) do_work_started) = Ret_none"
    using do_work_started_sample [of 5]
    by (simp only: fst_step_sample) (simp add: do_work_started_eq)
  have p: "p_steps do_work_started = 2" "p_done do_work_started = 0"
    "p_updated do_work_started = Some 1"
    by (simp_all add: do_work_started_eq)
  have n: "no_sample [Worker 6, Worker 7, Call_stop, Call_wait True]" by simp
  show ?thesis
    using r p n
      sample_writes_only_snapshot_attributes
        [of 5 do_work_started "[Worker 6, Worker 7, Call_stop, Call_wait True]"]
    by (simp del: step.simps exec.simps)
qed

subsection \<open>The stop request\<close>

lemma worker_step_stopping: "p_stopping (snd (worker_step t s)) = p_stopping s"
  by (cases rule: worker_step_cases [of t s]) (simp_all add: set_goal_def update_def Let_def split: option.splits)

lemma step_stopping: "p_stopping s \<Longrightarrow> p_stopping (snd (step e s))"
proof (cases e)
  case (Call_start a t ok)
  then show ?thesis if "p_stopping s" using that by (simp add: start_def Let_def)
next
  case Poll_start
  then show ?thesis if "p_stopping s" using that by (simp add: start_poll_def split: lock.splits)
next
  case (Worker t)
  then show ?thesis if "p_stopping s" using that by (simp add: worker_step_stopping)
next
  case (Call_wait b)
  then show ?thesis if "p_stopping s" using that by (simp add: wait_frame)
next
  case (Call_sample t)
  then show ?thesis if "p_stopping s" using that
    by (simp add: snd_step_sample sample_frame del: step.simps)
next
  case Call_stop
  then show ?thesis by (simp add: stop_def)
next
  case Call_stopping
  then show ?thesis if "p_stopping s" using that by simp
next
  case Call_started
  then show ?thesis if "p_stopping s" using that by simp
next
  case Call_exc_info
  then show ?thesis if "p_stopping s" using that by (simp add: exc_info_state)
qed

lemma exec_stopping: "p_stopping s \<Longrightarrow> p_stopping (exec evs s)"
  by (induction evs arbitrary: s) (simp_all add: step_stopping)

text \<open>
  C10. After \<^verbatim>\<open>stop()\<close>, whatever steps the caller threads and the worker take from then
  on (further calls of \<^verbatim>\<open>start\<close> and whole runs included), \<^verbatim>\<open>stopping()\<close> answers true
  and leaves the object as it is, and a callable that polls \<^verbatim>\<open>stopping()\<close> continues on
  its true branch: no step clears the stop request.
\<close>

theorem stop_request_never_cleared:
  "step Call_stopping (exec evs (snd (step Call_stop s))) =
     (Ret_bool True, exec evs (snd (step Call_stop s))) \<and>
   (p_worker (exec evs (snd (step Call_stop s))) = Some (Alive (In_target (Stopping k1 k2))) \<longrightarrow>
      p_worker (snd (step (Worker t) (exec evs (snd (step Call_stop s))))) =
        Some (Alive (In_target k1)))"
proof -
  have "p_stopping (snd (step Call_stop s))" by (simp add: stop_def)
  then have "p_stopping (exec evs (snd (step Call_stop s)))" by (rule exec_stopping)
  then show ?thesis by (simp add: stopping_def worker_step_def)
qed

theorem stop_request_never_cleared_witness:
  "fst (step Call_stopping
     (exec [Call_wait True, Call_sample 2, Call_started] (snd (step Call_stop do_work_started)))) =
     Ret_bool True \<and>
   p_worker (exec [Call_wait True, Call_sample 2, Call_started] (snd (step Call_stop do_work_started))) =
     Some (Alive (In_target (Stopping (Return None) (Update 1 (do_work_loop (Suc 0)))))) \<and>
   p_worker (snd (step (Worker 3)
     (exec [Call_wait True, Call_sample 2, Call_started] (snd (step Call_stop do_work_started))))) =
     Some (Alive (In_target (Return None)))"
proof -
  have w: "p_worker (exec [Call_wait True, Call_sample 2, Call_started] (snd (step Call_stop do_work_started))) =
     Some (Alive (In_target (Stopping (Return None) (Update 1 (do_work_loop (Suc 0))))))"
    by (simp add: do_work_started_eq method_defs)
  show ?thesis
    using w stop_request_never_cleared
      [of "[Call_wait True, Call_sample 2, Call_started]" do_work_started
          "Return None" "Update 1 (do_work_loop (Suc 0))" 3]
    by (simp del: step.simps exec.simps)
qed

subsection \<open>The exception of the callable\<close>

lemma fst_worker_step: "fst (worker_step t s) = Stepped \<or> fst (worker_step t s) = Disabled"
  by (cases rule: worker_step_cases [of t s]) simp_all

lemma worker_step_exc_info:
  "p_exc_info (snd (worker_step t s)) = p_exc_info s \<or>
   p_exc_info (snd (worker_step t s)) = Some None"
  by (cases rule: worker_step_cases [of t s])
    (simp_all add: set_goal_def update_def Let_def split: option.splits)

lemma step_exc_info:
  "p_exc_info (snd (step ev s)) = p_exc_info s \<or> p_exc_info (snd (step ev s)) = Some None"
proof (cases ev)
  case (Call_start a t ok)
  then show ?thesis by (simp add: start_def Let_def)
next
  case Poll_start
  then show ?thesis by (simp add: start_poll_def split: lock.splits)
next
  case (Worker t)
  then show ?thesis using worker_step_exc_info [of t s] by simp
next
  case (Call_wait b)
  then show ?thesis by (simp add: wait_frame)
next
  case (Call_sample t)
  then show ?thesis by (simp add: snd_step_sample sample_frame del: step.simps)
next
  case Call_stop
  then show ?thesis by (simp add: stop_def)
next
  case Call_stopping
  then show ?thesis by simp
next
  case Call_started
  then show ?thesis by simp
next
  case Call_exc_info
  then show ?thesis by (simp add: exc_info_state)
qed

lemma step_Propagated:
  assumes "fst (step ev s) = Raises (Propagated e)"
  shows "p_exc_info s = Some (Some e)"
proof (cases ev)
  case (Call_start a t ok)
  then show ?thesis using assms by (simp add: start_def Let_def split: if_splits)
next
  case Poll_start
  then show ?thesis using assms by (simp add: start_poll_def split: lock.splits if_splits)
next
  case (Worker t)
  then show ?thesis using assms fst_worker_step [of t s] by auto
next
  case (Call_wait b)
  then show ?thesis using assms
    by (simp add: wait_def wait_outcome_def split: option.splits thread.splits ret.splits if_splits)
next
  case (Call_sample t)
  then show ?thesis using assms sample_raises [of t s]
    by (auto split: if_splits prod.splits sum.splits)
next
  case Call_stop
  then show ?thesis using assms by simp
next
  case Call_stopping
  then show ?thesis using assms by simp
next
  case Call_started
  then show ?thesis using assms by simp
next
  case Call_exc_info
  then show ?thesis using assms by (simp add: exc_info_def split: option.splits)
qed

text \<open>
  No execution ever stores an exception in \<^verbatim>\<open>_exc_info\<close>, so no call on an object made
  by \<^verbatim>\<open>__init__\<close> ever raises the exception of the callable.
\<close>

lemma exception_never_reraised:
  "\<forall>x. p_exc_info s \<noteq> Some (Some x) \<Longrightarrow> Raises (Propagated e) \<notin> set (replies evs s)"
proof (induction evs arbitrary: s)
  case Nil
  then show ?case by simp
next
  case (Cons ev evs)
  have "fst (step ev s) \<noteq> Raises (Propagated e)"
    using Cons.prems step_Propagated [of ev s e] by auto
  moreover have "\<forall>x. p_exc_info (snd (step ev s)) \<noteq> Some (Some x)"
    using Cons.prems step_exc_info [of ev s] by auto
  ultimately show ?case using Cons.IH by simp
qed

lemma new_object_never_reraises: "Raises (Propagated e) \<notin> set (replies evs (init tg nm))"
  by (rule exception_never_reraised) (simp add: init_def)

text \<open>
  C1. The claim is that a callable which declares a goal and raises \<open>E\<close> makes \<^verbatim>\<open>wait()\<close>
  (and so the synchronous call) raise \<open>E\<close>. In the run below the callable declares one
  step and raises; the handler of \<^verbatim>\<open>run\<close> then fails on the unbound name \<^verbatim>\<open>sys\<close>, the
  worker thread ends with that \<^verbatim>\<open>NameError\<close>, \<^verbatim>\<open>start\<close> returns normally, and
  \<^verbatim>\<open>wait()\<close> raises \<^verbatim>\<open>TypeError\<close> from \<^verbatim>\<open>raise None\<close>, not the exception of the callable.
  By \<open>new_object_never_reraises\<close> no other interleaving does better.
\<close>

theorem raise_after_goal_wait_TypeError:
  "replies [Call_start () 0 True, Worker 0, Worker 0, Worker 0, Poll_start, Call_wait False]
     (Thread None raises_boom) =
     [Stepped, Stepped, Stepped, Stepped, Ret_none, Raises TypeError] \<and>
   p_worker (exec [Call_start () 0 True, Worker 0, Worker 0, Worker 0] (Thread None raises_boom)) =
     Some (Finished (Some (NameError ''sys'')))"
  by (simp add: method_defs raises_boom_def)

subsection \<open>The slot while the callable runs\<close>

lemma wait_return:
  "p_return (snd (wait b s)) = p_return s \<or> p_return (snd (wait b s)) = Some RETURN_NOTHING"
  by (simp add: wait_def wait_outcome_def split: option.splits thread.splits ret.splits)

lemma slot_inv_worker_step: "slot_inv s \<Longrightarrow> slot_inv (snd (worker_step t s))"
  by (cases rule: worker_step_cases [of t s])
    (simp_all add: slot_inv_def set_goal_def update_def Let_def split: option.splits)

lemma slot_inv_step:
  assumes "slot_inv s"
  shows "slot_inv (snd (step ev s))"
proof (cases ev)
  case (Call_start a t ok)
  then show ?thesis using assms by (simp add: start_def slot_inv_def Let_def)
next
  case Poll_start
  then show ?thesis using assms by (simp add: start_poll_def slot_inv_def split: lock.splits)
next
  case (Worker t)
  then show ?thesis using assms slot_inv_worker_step by auto
next
  case (Call_wait b)
  then show ?thesis using assms wait_return [of b s]
    by (auto simp: slot_inv_def wait_frame)
next
  case (Call_sample t)
  then show ?thesis using assms
    by (simp add: snd_step_sample slot_inv_def sample_frame del: step.simps)
next
  case Call_stop
  then show ?thesis using assms by (simp add: stop_def slot_inv_def)
next
  case Call_stopping
  then show ?thesis using assms by simp
next
  case Call_started
  then show ?thesis using assms by simp
next
  case Call_exc_info
  then show ?thesis using assms by (simp add: exc_info_state)
qed



subsection \<open>The outcome slot\<close>

lemma no_start_Cons:
  "no_start (ev # evs) \<longleftrightarrow> (\<forall>a t ok. ev \<noteq> Call_start a t ok) \<and> no_start evs"
  by (cases ev) simp_all

lemma worker_step_leaves_run:
  "\<not> in_run (p_worker s) \<Longrightarrow> \<not> in_run (p_worker (snd (worker_step t s)))"
  by (cases rule: worker_step_cases [of t s]) simp_all

lemma step_leaves_run:
  assumes "\<not> in_run (p_worker s)" and "\<forall>a t ok. ev \<noteq> Call_start a t ok"
  shows "\<not> in_run (p_worker (snd (step ev s)))"
proof (cases ev)
  case (Call_start a t ok)
  then show ?thesis using assms(2) by simp
next
  case Poll_start
  then show ?thesis using assms(1) by (simp add: start_poll_def split: lock.splits)
next
  case (Worker t)
  then show ?thesis using assms(1) worker_step_leaves_run by auto
next
  case (Call_wait b)
  then show ?thesis using assms(1) by (simp add: wait_frame)
next
  case (Call_sample t)
  then show ?thesis using assms(1) by (simp add: snd_step_sample sample_frame del: step.simps)
next
  case Call_stop
  then show ?thesis using assms(1) by (simp add: stop_def)
next
  case Call_stopping
  then show ?thesis using assms(1) by simp
next
  case Call_started
  then show ?thesis using assms(1) by simp
next
  case Call_exc_info
  then show ?thesis using assms(1) by (simp add: exc_info_state)
qed

lemma worker_step_return:
  "p_return (snd (worker_step t s)) = p_return s \<or>
   p_return (snd (worker_step t s)) = Some RETURN_NOTHING \<or>
   (\<exists>r. p_worker s = Some (Alive (In_target (Return r)))) \<or>
   (\<exists>x. p_worker s = Some (Alive (In_target (Raise x))))"
  by (cases rule: worker_step_cases [of t s])
    (simp_all add: set_goal_def update_def Let_def split: option.splits)

lemma step_return:
  "p_return (snd (step ev s)) = p_return s \<or>
   p_return (snd (step ev s)) = Some RETURN_NOTHING \<or>
   (\<exists>t. ev = Worker t) \<and>
     ((\<exists>r. p_worker s = Some (Alive (In_target (Return r)))) \<or>
      (\<exists>x. p_worker s = Some (Alive (In_target (Raise x)))))"
proof (cases ev)
  case (Call_start a t ok)
  then show ?thesis by (simp add: start_def Let_def)
next
  case Poll_start
  then show ?thesis by (simp add: start_poll_def split: lock.splits)
next
  case (Worker t)
  then show ?thesis using worker_step_return [of t s] by auto
next
  case (Call_wait b)
  then show ?thesis using wait_return [of b s] by auto
next
  case (Call_sample t)
  then show ?thesis by (simp add: snd_step_sample sample_frame del: step.simps)
next
  case Call_stop
  then show ?thesis by (simp add: stop_def)
next
  case Call_stopping
  then show ?thesis by simp
next
  case Call_started
  then show ?thesis by simp
next
  case Call_exc_info
  then show ?thesis by (simp add: exc_info_state)
qed

text \<open>Only the worker's step out of the callable stores an outcome kind.\<close>

lemma stores_outcome_exit:
  assumes "stores_outcome ev s"
  shows "(\<exists>t. ev = Worker t) \<and>
     ((\<exists>r. p_worker s = Some (Alive (In_target (Return r)))) \<or>
      (\<exists>x. p_worker s = Some (Alive (In_target (Raise x)))))"
  using assms step_return [of ev s] unfolding stores_outcome_def by auto

lemma exit_stores_outcome:
  assumes "p_worker s = Some (Alive (In_target (Return r))) \<or>
           p_worker s = Some (Alive (In_target (Raise x)))"
    and "p_return s = Some RETURN_NOTHING"
  shows "stores_outcome (Worker t) s" and "\<not> in_run (p_worker (snd (step (Worker t) s)))"
  using assms by (auto simp: stores_outcome_def worker_step_def)

lemma worker_step_target: "p_target (snd (worker_step t s)) = p_target s"
  by (cases rule: worker_step_cases [of t s])
    (simp_all add: set_goal_def update_def Let_def split: option.splits)

lemma sample_target: "p_target (snd (sample t s)) = p_target s"
  by (simp add: sample_def sample_tail_def Let_def split: option.splits)

lemma wait_target: "p_target (snd (wait b s)) = p_target s"
  by (simp add: wait_def wait_outcome_def split: option.splits thread.splits ret.splits)

lemma step_target: "p_target (snd (step ev s)) = p_target s"
proof (cases ev)
  case (Call_start a t ok)
  then show ?thesis by (simp add: start_def Let_def)
next
  case Poll_start
  then show ?thesis by (simp add: start_poll_def split: lock.splits)
next
  case (Worker t)
  then show ?thesis by (simp add: worker_step_target)
next
  case (Call_wait b)
  then show ?thesis by (simp add: wait_target)
next
  case (Call_sample t)
  then show ?thesis by (simp add: snd_step_sample sample_target del: step.simps)
next
  case Call_stop
  then show ?thesis by (simp add: stop_def)
next
  case Call_stopping
  then show ?thesis by simp
next
  case Call_started
  then show ?thesis by simp
next
  case Call_exc_info
  then show ?thesis by (simp add: exc_info_state)
qed

lemma worker_step_stays_or_exits:
  assumes "in_run (p_worker s)" and "p_target s = Some f"
  shows "in_run (p_worker (snd (worker_step t s))) \<or>
     (\<exists>r. p_worker s = Some (Alive (In_target (Return r)))) \<or>
     (\<exists>x. p_worker s = Some (Alive (In_target (Raise x))))"
  using assms
  by (cases rule: worker_step_cases [of t s])
    (auto simp: set_goal_def update_def Let_def split: option.splits)

lemma step_stays_or_exits:
  assumes "in_run (p_worker s)" and "p_target s = Some f"
    and "\<forall>a t ok. ev \<noteq> Call_start a t ok"
  shows "in_run (p_worker (snd (step ev s))) \<or>
     (\<exists>t. ev = Worker t) \<and>
       ((\<exists>r. p_worker s = Some (Alive (In_target (Return r)))) \<or>
        (\<exists>x. p_worker s = Some (Alive (In_target (Raise x)))))"
proof (cases ev)
  case (Call_start a t ok)
  then show ?thesis using assms(3) by simp
next
  case Poll_start
  then show ?thesis using assms(1) by (simp add: start_poll_def split: lock.splits)
next
  case (Worker t)
  then show ?thesis using worker_step_stays_or_exits [OF assms(1,2), of t] by auto
next
  case (Call_wait b)
  then show ?thesis using assms(1) by (simp add: wait_frame)
next
  case (Call_sample t)
  then show ?thesis using assms(1) by (simp add: snd_step_sample sample_frame del: step.simps)
next
  case Call_stop
  then show ?thesis using assms(1) by (simp add: stop_def)
next
  case Call_stopping
  then show ?thesis using assms(1) by simp
next
  case Call_started
  then show ?thesis using assms(1) by simp
next
  case Call_exc_info
  then show ?thesis using assms(1) by (simp add: exc_info_state)
qed

lemma outcome_stores_after_run:
  "no_start evs \<Longrightarrow> \<not> in_run (p_worker s) \<Longrightarrow>
     outcome_stores evs s = 0 \<and> \<not> in_run (p_worker (exec evs s))"
proof (induction evs arbitrary: s)
  case Nil
  then show ?case by simp
next
  case (Cons ev evs)
  from Cons.prems(1) have ns: "\<forall>a t ok. ev \<noteq> Call_start a t ok" and rest: "no_start evs"
    by (simp_all add: no_start_Cons)
  have "\<not> stores_outcome ev s"
    using Cons.prems(2) stores_outcome_exit [of ev s] by auto
  moreover have "\<not> in_run (p_worker (snd (step ev s)))"
    using Cons.prems(2) ns by (rule step_leaves_run)
  ultimately show ?case using Cons.IH [OF rest] by simp
qed

lemma outcome_stores_in_run:
  "no_start evs \<Longrightarrow> in_run (p_worker s) \<Longrightarrow> p_target s = Some f \<Longrightarrow> slot_inv s \<Longrightarrow>
     outcome_stores evs s = (if in_run (p_worker (exec evs s)) then 0 else 1)"
proof (induction evs arbitrary: s)
  case Nil
  then show ?case by simp
next
  case (Cons ev evs)
  from Cons.prems(1) have ns: "\<forall>a t ok. ev \<noteq> Call_start a t ok" and rest: "no_start evs"
    by (simp_all add: no_start_Cons)
  show ?case
  proof (cases "in_run (p_worker (snd (step ev s)))")
    case True
    have "\<not> stores_outcome ev s"
    proof
      assume st: "stores_outcome ev s"
      then obtain t where ev: "ev = Worker t" using stores_outcome_exit by blast
      have ex: "(\<exists>r. p_worker s = Some (Alive (In_target (Return r)))) \<or>
        (\<exists>x. p_worker s = Some (Alive (In_target (Raise x))))"
        using st stores_outcome_exit by blast
      have "\<not> in_run (p_worker (snd (step (Worker t) s)))"
        using ex by (auto simp: worker_step_def)
      then show False using True ev by simp
    qed
    moreover have "outcome_stores evs (snd (step ev s)) =
        (if in_run (p_worker (exec evs (snd (step ev s)))) then 0 else 1)"
      using Cons.IH [OF rest True] Cons.prems(3,4) step_target [of ev s] slot_inv_step [of s ev]
      by simp
    ultimately show ?thesis by simp
  next
    case False
    then obtain t where ev: "ev = Worker t"
      and ex: "(\<exists>r. p_worker s = Some (Alive (In_target (Return r)))) \<or>
        (\<exists>x. p_worker s = Some (Alive (In_target (Raise x))))"
      using step_stays_or_exits [OF Cons.prems(2,3) ns] by blast
    have slot: "p_return s = Some RETURN_NOTHING"
      using ex Cons.prems(4) by (auto simp: slot_inv_def)
    have "stores_outcome (Worker t) s"
      using ex slot by (auto simp: stores_outcome_def worker_step_def)
    then have "stores_outcome ev s" using ev by simp
    moreover have "outcome_stores evs (snd (step ev s)) = 0 \<and>
        \<not> in_run (p_worker (exec evs (snd (step ev s))))"
      using outcome_stores_after_run [OF rest False] .
    ultimately show ?thesis by simp
  qed
qed

lemma outcome_stores_run:
  assumes "p_lock s = Unlocked" and "\<not> p_running s" and "p_target s = Some f"
    and "no_start evs"
  shows "outcome_stores evs (snd (step (Call_start a t True) s)) =
     (if in_run (p_worker (exec evs (snd (step (Call_start a t True) s)))) then 0 else 1)"
proof (rule outcome_stores_in_run [OF assms(4)])
  show "in_run (p_worker (snd (step (Call_start a t True) s)))"
    using assms(1,2) by (simp add: start_def Let_def)
  show "p_target (snd (step (Call_start a t True) s)) = Some f"
    using assms(3) by (simp only: step_target)
  show "slot_inv (snd (step (Call_start a t True) s))"
    using assms(1,2) by (simp add: start_def Let_def slot_inv_def)
qed

lemma wait_return_keep:
  "p_return s \<noteq> Some RETURN_VALUE \<Longrightarrow> p_return (snd (wait b s)) = p_return s"
  by (simp add: wait_def wait_outcome_def split: option.splits thread.splits ret.splits)

lemma finished_step:
  assumes "p_worker s = Some (Finished x)" and "\<forall>a t ok. ev \<noteq> Call_start a t ok"
  shows "p_worker (snd (step ev s)) = Some (Finished x)"
    and "p_return s \<noteq> Some RETURN_VALUE \<Longrightarrow> p_return (snd (step ev s)) = p_return s"
proof -
  show "p_worker (snd (step ev s)) = Some (Finished x)"
  proof (cases ev)
    case (Call_start a t ok)
    then show ?thesis using assms(2) by simp
  next
    case Poll_start
    then show ?thesis using assms(1) by (simp add: start_poll_def split: lock.splits)
  next
    case (Worker t)
    then show ?thesis using assms(1) by (simp add: worker_step_def)
  next
    case (Call_wait b)
    then show ?thesis using assms(1) by (simp add: wait_frame)
  next
    case (Call_sample t)
    then show ?thesis using assms(1) by (simp add: snd_step_sample sample_frame del: step.simps)
  next
    case Call_stop
    then show ?thesis using assms(1) by (simp add: stop_def)
  next
    case Call_stopping
    then show ?thesis using assms(1) by simp
  next
    case Call_started
    then show ?thesis using assms(1) by simp
  next
    case Call_exc_info
    then show ?thesis using assms(1) by (simp add: exc_info_state)
  qed
  show "p_return (snd (step ev s)) = p_return s" if nv: "p_return s \<noteq> Some RETURN_VALUE"
  proof (cases ev)
    case (Call_start a t ok)
    then show ?thesis using assms(2) by simp
  next
    case Poll_start
    then show ?thesis by (simp add: start_poll_def split: lock.splits)
  next
    case (Worker t)
    then show ?thesis using assms(1) by (simp add: worker_step_def)
  next
    case (Call_wait b)
    then show ?thesis using nv by (simp add: wait_return_keep)
  next
    case (Call_sample t)
    then show ?thesis by (simp add: snd_step_sample sample_frame del: step.simps)
  next
    case Call_stop
    then show ?thesis by (simp add: stop_def)
  next
    case Call_stopping
    then show ?thesis by simp
  next
    case Call_started
    then show ?thesis by simp
  next
    case Call_exc_info
    then show ?thesis by (simp add: exc_info_state)
  qed
qed

lemma step_Ret_value:
  assumes "fst (step ev s) = Ret_value v"
  shows "p_return s = Some RETURN_VALUE"
proof (cases ev)
  case (Call_start a t ok)
  then show ?thesis using assms by (simp add: start_def Let_def split: if_splits)
next
  case Poll_start
  then show ?thesis using assms by (simp add: start_poll_def split: lock.splits if_splits)
next
  case (Worker t)
  then show ?thesis using assms fst_worker_step [of t s] by auto
next
  case (Call_wait b)
  then show ?thesis using assms
    by (simp add: wait_def wait_outcome_def split: option.splits thread.splits ret.splits if_splits)
next
  case (Call_sample t)
  then show ?thesis using assms fst_step_sample_cases [of t s] by auto
next
  case Call_stop
  then show ?thesis using assms by simp
next
  case Call_stopping
  then show ?thesis using assms by simp
next
  case Call_started
  then show ?thesis using assms by simp
next
  case Call_exc_info
  then show ?thesis using assms by (simp add: exc_info_def split: option.splits)
qed

lemma finished_exec:
  "p_worker s = Some (Finished x) \<Longrightarrow> p_return s \<noteq> Some RETURN_VALUE \<Longrightarrow> no_start evs \<Longrightarrow>
     p_return (exec evs s) = p_return s \<and> (\<forall>v. Ret_value v \<notin> set (replies evs s))"
proof (induction evs arbitrary: s)
  case Nil
  then show ?case by simp
next
  case (Cons ev evs)
  from Cons.prems(3) have ns: "\<forall>a t ok. ev \<noteq> Call_start a t ok" and rest: "no_start evs"
    by (simp_all add: no_start_Cons)
  have w: "p_worker (snd (step ev s)) = Some (Finished x)"
    using finished_step(1) [OF Cons.prems(1) ns] .
  have r: "p_return (snd (step ev s)) = p_return s"
    using finished_step(2) [OF Cons.prems(1) ns Cons.prems(2)] .
  have nv: "\<forall>v. fst (step ev s) \<noteq> Ret_value v"
    using Cons.prems(2) step_Ret_value [of ev s] by blast
  have ih: "p_return (exec evs (snd (step ev s))) = p_return (snd (step ev s)) \<and>
      (\<forall>v. Ret_value v \<notin> set (replies evs (snd (step ev s))))"
    using Cons.IH [OF w _ rest] r Cons.prems(2) by simp
  have a: "p_return (exec (ev # evs) s) = p_return s"
    using ih r by simp
  have b: "Ret_value v \<notin> set (replies (ev # evs) s)" for v
  proof
    assume "Ret_value v \<in> set (replies (ev # evs) s)"
    then have "fst (step ev s) = Ret_value v \<or> Ret_value v \<in> set (replies evs (snd (step ev s)))"
      by auto
    then show False using nv ih by blast
  qed
  show ?case using a b by blast
qed

lemma counts_to_finished_eq:
  "counts_to_finished =
     \<lparr> p_target = Some counts_to, name = None, p_lock = Unlocked,
       p_stopping = False, p_started = False, p_running = False,
       p_steps = 3, p_done = 3,
       p_updated = Some 5, since = Some 0,
       p_return = Some RETURN_VALUE, p_result = Some (Some 3), p_exc_info = Some None,
       p_worker = Some (Finished None),
       sampled = None, updated = None, steps = None, done_pub = None,
       pcdone = None, ttg = None, eta = None, elapsed = None \<rparr>"
  by (simp add: counts_to_finished_def method_defs counts_to_def)

lemma raises_boom_finished_eq:
  "raises_boom_finished =
     \<lparr> p_target = Some raises_boom, name = None, p_lock = Unlocked,
       p_stopping = False, p_started = True, p_running = True,
       p_steps = 1, p_done = 0,
       p_updated = Some 1, since = Some 0,
       p_return = Some RETURN_EXCEPTION, p_result = Some None, p_exc_info = Some None,
       p_worker = Some (Finished (Some (NameError ''sys''))),
       sampled = None, updated = None, steps = None, done_pub = None,
       pcdone = None, ttg = None, eta = None, elapsed = None \<rparr>"
  by (simp add: raises_boom_finished_def method_defs raises_boom_def)

text \<open>
  C7. The claim is that \<^verbatim>\<open>wait()\<close> resets the outcome slot for a failure as it does for a
  value, so that no outcome is delivered twice. After the run of the raising callable,
  \<^verbatim>\<open>wait()\<close> raises and leaves \<^verbatim>\<open>_return\<close> at \<^verbatim>\<open>RETURN_EXCEPTION\<close>, and a second
  \<^verbatim>\<open>wait()\<close> raises the same again.
\<close>

theorem failure_outcome_not_reset:
  "replies [Call_wait False, Call_wait False] raises_boom_finished =
     [Raises TypeError, Raises TypeError] \<and>
   p_return (exec [Call_wait False] raises_boom_finished) = Some RETURN_EXCEPTION \<and>
   p_return (exec [Call_wait False] raises_boom_finished) \<noteq> Some RETURN_NOTHING"
  by (simp add: raises_boom_finished_eq wait_def wait_outcome_def)

lemma wait_value:
  assumes "p_worker s = Some (Finished x)" and "p_return s = Some RETURN_VALUE"
    and "p_result s = Some r"
  shows "step (Call_wait b) s =
           (Ret_value r, s\<lparr>p_return := Some RETURN_NOTHING, p_result := Some None\<rparr>)"
  using assms by (simp add: wait_def wait_outcome_def)

lemma wait_exception:
  assumes "p_worker s = Some (Finished x)" and "p_return s = Some RETURN_EXCEPTION"
  shows "\<exists>e. fst (step (Call_wait b) s) = Raises e" and "snd (step (Call_wait b) s) = s"
  using assms by (simp_all add: wait_def wait_outcome_def split: option.splits)

lemma value_read_once:
  assumes "p_worker s = Some (Finished x)" and "no_start evs"
  shows "\<forall>v. Ret_value v \<notin>
    set (replies evs (s\<lparr>p_return := Some RETURN_NOTHING, p_result := Some None\<rparr>))"
proof -
  have "p_worker (s\<lparr>p_return := Some RETURN_NOTHING, p_result := Some None\<rparr>) = Some (Finished x)"
    using assms(1) by simp
  moreover have "p_return (s\<lparr>p_return := Some RETURN_NOTHING, p_result := Some None\<rparr>) \<noteq>
      Some RETURN_VALUE"
    by simp
  ultimately show ?thesis using finished_exec assms(2) by blast
qed

lemma exception_kept:
  assumes "p_worker s = Some (Finished x)" and "p_return s = Some RETURN_EXCEPTION"
    and "no_start evs"
  shows "p_return (exec evs s) = Some RETURN_EXCEPTION"
proof -
  have "p_return s \<noteq> Some RETURN_VALUE" using assms(2) by simp
  then have "p_return (exec evs s) = p_return s"
    using finished_exec [OF assms(1) _ assms(3)] by blast
  then show ?thesis using assms(2) by simp
qed

lemma run_entry_resets:
  assumes "p_worker s = Some (Alive (At_run a))" and "p_target s = Some f"
  shows "p_return (snd (step (Worker t) s)) = Some RETURN_NOTHING"
  using assms by (simp add: worker_step_def)

text \<open>
  C7, as amended. In every run of an object that has a callable, the worker stores an
  outcome kind in the slot exactly once: among the events of the run (from the entry of
  \<^verbatim>\<open>start\<close>, with no further entry of \<^verbatim>\<open>start\<close>) none stores one while the worker is
  entering \<^verbatim>\<open>run\<close> or is inside the callable, and exactly one has stored one from the
  moment the callable has returned or raised; an event that stores an outcome kind is
  the worker's step out of the callable. A \<^verbatim>\<open>wait()\<close> that finds a value after the
  worker has ended returns it and resets the slot to \<^verbatim>\<open>RETURN_NOTHING\<close> and \<^verbatim>\<open>None\<close>,
  and no later call of the run returns a value. A \<^verbatim>\<open>wait()\<close> that finds
  \<^verbatim>\<open>RETURN_EXCEPTION\<close> after the worker has ended raises and changes nothing, and the
  slot stays at \<^verbatim>\<open>RETURN_EXCEPTION\<close> through every later call of the run; it is the
  entry of the next run into \<^verbatim>\<open>run\<close> that resets it to \<^verbatim>\<open>RETURN_NOTHING\<close>.
\<close>

theorem outcome_stored_once_value_read_once:
  "(p_lock s0 = Unlocked \<and> \<not> p_running s0 \<and> p_target s0 = Some f \<and> no_start evs \<longrightarrow>
      outcome_stores evs (snd (step (Call_start a t True) s0)) =
        (if in_run (p_worker (exec evs (snd (step (Call_start a t True) s0)))) then 0 else 1)) \<and>
   (stores_outcome ev s1 \<longrightarrow>
      (\<exists>t1. ev = Worker t1) \<and>
      ((\<exists>r1. p_worker s1 = Some (Alive (In_target (Return r1)))) \<or>
       (\<exists>x1. p_worker s1 = Some (Alive (In_target (Raise x1)))))) \<and>
   (p_worker s = Some (Finished x) \<and> p_return s = Some RETURN_VALUE \<and> p_result s = Some r \<longrightarrow>
      step (Call_wait b) s =
        (Ret_value r, s\<lparr>p_return := Some RETURN_NOTHING, p_result := Some None\<rparr>) \<and>
      (no_start evs' \<longrightarrow>
         (\<forall>v. Ret_value v \<notin>
            set (replies evs' (s\<lparr>p_return := Some RETURN_NOTHING, p_result := Some None\<rparr>))))) \<and>
   (p_worker s' = Some (Finished x') \<and> p_return s' = Some RETURN_EXCEPTION \<longrightarrow>
      (\<exists>e. fst (step (Call_wait b') s') = Raises e) \<and>
      snd (step (Call_wait b') s') = s' \<and>
      (no_start evs'' \<longrightarrow> p_return (exec evs'' s') = Some RETURN_EXCEPTION)) \<and>
   (p_worker s2 = Some (Alive (At_run a2)) \<and> p_target s2 = Some f2 \<longrightarrow>
      p_return (snd (step (Worker t2) s2)) = Some RETURN_NOTHING)"
proof -
  have once: "p_lock s0 = Unlocked \<and> \<not> p_running s0 \<and> p_target s0 = Some f \<and> no_start evs \<longrightarrow>
      outcome_stores evs (snd (step (Call_start a t True) s0)) =
        (if in_run (p_worker (exec evs (snd (step (Call_start a t True) s0)))) then 0 else 1)"
    by (rule impI, elim conjE, rule outcome_stores_run)
  have by_worker: "stores_outcome ev s1 \<longrightarrow>
      (\<exists>t1. ev = Worker t1) \<and>
      ((\<exists>r1. p_worker s1 = Some (Alive (In_target (Return r1)))) \<or>
       (\<exists>x1. p_worker s1 = Some (Alive (In_target (Raise x1)))))"
    using stores_outcome_exit by blast
  have val: "p_worker s = Some (Finished x) \<and> p_return s = Some RETURN_VALUE \<and> p_result s = Some r \<longrightarrow>
      step (Call_wait b) s =
        (Ret_value r, s\<lparr>p_return := Some RETURN_NOTHING, p_result := Some None\<rparr>) \<and>
      (no_start evs' \<longrightarrow>
         (\<forall>v. Ret_value v \<notin>
            set (replies evs' (s\<lparr>p_return := Some RETURN_NOTHING, p_result := Some None\<rparr>))))"
    using wait_value [of s x r b] value_read_once [of s x evs'] by blast
  have exc: "p_worker s' = Some (Finished x') \<and> p_return s' = Some RETURN_EXCEPTION \<longrightarrow>
      (\<exists>e. fst (step (Call_wait b') s') = Raises e) \<and>
      snd (step (Call_wait b') s') = s' \<and>
      (no_start evs'' \<longrightarrow> p_return (exec evs'' s') = Some RETURN_EXCEPTION)"
    using wait_exception [of s' x' b'] exception_kept [of s' x' evs''] by blast
  have reset: "p_worker s2 = Some (Alive (At_run a2)) \<and> p_target s2 = Some f2 \<longrightarrow>
      p_return (snd (step (Worker t2) s2)) = Some RETURN_NOTHING"
    by (rule impI, elim conjE, rule run_entry_resets)
  show ?thesis using once by_worker val exc reset by (intro conjI)
qed

theorem outcome_stored_once_value_read_once_witness:
  "p_lock (Thread None counts_to) = Unlocked \<and> \<not> p_running (Thread None counts_to) \<and>
   p_target (Thread None counts_to) = Some counts_to \<and>
   no_start ([Worker 0, Worker 1, Poll_start, Worker 2, Worker 3, Worker 4, Worker 5, Call_wait False]
     :: nat event list) \<and>
   outcome_stores [Worker 0, Worker 1, Poll_start, Worker 2, Worker 3, Worker 4, Worker 5, Call_wait False]
     (snd (step (Call_start 3 0 True) (Thread None counts_to))) = 1 \<and>
   outcome_stores [Worker 0, Worker 1, Poll_start, Worker 2]
     (snd (step (Call_start 3 0 True) (Thread None counts_to))) = 0 \<and>
   stores_outcome (Worker 3)
     (exec [Call_start 3 0 True, Worker 0, Worker 1, Poll_start, Worker 2] (Thread None counts_to)) \<and>
   p_worker counts_to_finished = Some (Finished None) \<and>
   p_return counts_to_finished = Some RETURN_VALUE \<and>
   p_result counts_to_finished = Some (Some 3) \<and>
   replies [Call_wait False, Call_wait False, Call_sample 6, Call_wait True] counts_to_finished =
     [Ret_value (Some 3), Raises (Bug ''Unrecognised return type''), Ret_none,
      Raises (Bug ''Unrecognised return type'')] \<and>
   p_worker raises_boom_finished = Some (Finished (Some (NameError ''sys''))) \<and>
   p_return raises_boom_finished = Some RETURN_EXCEPTION \<and>
   snd (step (Call_wait False) raises_boom_finished) = raises_boom_finished \<and>
   p_return (exec [Call_wait False, Call_stop, Call_wait False] raises_boom_finished) =
     Some RETURN_EXCEPTION \<and>
   p_return (snd (step (Worker 1) (snd (step (Call_start () 0 True) (Thread None raises_boom))))) =
     Some RETURN_NOTHING"
proof -
  have a: "p_lock (Thread None counts_to) = Unlocked" "\<not> p_running (Thread None counts_to)"
    "p_target (Thread None counts_to) = Some counts_to"
    by (simp_all add: Thread_def init_def)
  have n: "no_start ([Worker 0, Worker 1, Poll_start, Worker 2, Worker 3, Worker 4, Worker 5, Call_wait False]
      :: nat event list)"
    "no_start ([Worker 0, Worker 1, Poll_start, Worker 2] :: nat event list)"
    "no_start ([Call_wait False, Call_stop, Call_wait False] :: unit event list)"
    "no_start ([Call_wait False, Call_sample 6, Call_wait True] :: nat event list)"
    by simp_all
  have r1: "\<not> in_run (p_worker (exec [Worker 0, Worker 1, Poll_start, Worker 2, Worker 3, Worker 4, Worker 5, Call_wait False]
     (snd (step (Call_start 3 0 True) (Thread None counts_to)))))"
    by (simp add: method_defs counts_to_def)
  have r0: "in_run (p_worker (exec [Worker 0, Worker 1, Poll_start, Worker 2]
     (snd (step (Call_start 3 0 True) (Thread None counts_to)))))"
    by (simp add: method_defs counts_to_def)
  have st: "stores_outcome (Worker 3)
     (exec [Call_start 3 0 True, Worker 0, Worker 1, Poll_start, Worker 2] (Thread None counts_to))"
    by (simp add: stores_outcome_def method_defs counts_to_def)
  have c: "p_worker counts_to_finished = Some (Finished None)"
    "p_return counts_to_finished = Some RETURN_VALUE"
    "p_result counts_to_finished = Some (Some 3)"
    by (simp_all add: counts_to_finished_eq)
  have d: "p_worker raises_boom_finished = Some (Finished (Some (NameError ''sys'')))"
    "p_return raises_boom_finished = Some RETURN_EXCEPTION"
    by (simp_all add: raises_boom_finished_eq)
  have w: "p_worker (snd (step (Call_start () 0 True) (Thread None raises_boom))) = Some (Alive (At_run ()))"
    "p_target (snd (step (Call_start () 0 True) (Thread None raises_boom))) = Some raises_boom"
    by (simp_all add: method_defs)
  note th1 = outcome_stored_once_value_read_once
    [where ?s0.0 = "Thread None counts_to" and f = counts_to and a = 3 and t = 0
       and evs = "[Worker 0, Worker 1, Poll_start, Worker 2, Worker 3, Worker 4, Worker 5, Call_wait False]"
       and s = counts_to_finished and x = None and r = "Some 3" and b = False
       and evs' = "[Call_wait False, Call_sample 6, Call_wait True]"
       and s' = raises_boom_finished and x' = "Some (NameError ''sys'')" and b' = False
       and evs'' = "[Call_wait False, Call_stop, Call_wait False]"
       and ?s2.0 = "snd (step (Call_start () 0 True) (Thread None raises_boom))"
       and ?a2.0 = "()" and ?f2.0 = raises_boom and ?t2.0 = 1]
  note th0 = outcome_stored_once_value_read_once
    [where ?s0.0 = "Thread None counts_to" and f = counts_to and a = 3 and t = 0
       and evs = "[Worker 0, Worker 1, Poll_start, Worker 2]"]
  note c1 = th1 [THEN conjunct1]
  note c0 = th0 [THEN conjunct1]
  note c4 = th1 [THEN conjunct2, THEN conjunct2, THEN conjunct2, THEN conjunct1]
  note c5 = th1 [THEN conjunct2, THEN conjunct2, THEN conjunct2, THEN conjunct2]
  have e1: "outcome_stores [Worker 0, Worker 1, Poll_start, Worker 2, Worker 3, Worker 4, Worker 5, Call_wait False]
     (snd (step (Call_start 3 0 True) (Thread None counts_to))) = 1"
    using c1 a n(1) r1 by (simp only: simp_thms if_False)
  have e0: "outcome_stores [Worker 0, Worker 1, Poll_start, Worker 2]
     (snd (step (Call_start 3 0 True) (Thread None counts_to))) = 0"
    using c0 a n(2) r0 by (simp only: simp_thms if_True)
  have e2: "snd (step (Call_wait False) raises_boom_finished) = raises_boom_finished"
    "p_return (exec [Call_wait False, Call_stop, Call_wait False] raises_boom_finished) =
     Some RETURN_EXCEPTION"
    using c4 d n(3) by (simp_all only: simp_thms)
  have e3: "p_return (snd (step (Worker 1) (snd (step (Call_start () 0 True) (Thread None raises_boom))))) =
     Some RETURN_NOTHING"
    using c5 w by (simp only: simp_thms)
  have e4: "replies [Call_wait False, Call_wait False, Call_sample 6, Call_wait True] counts_to_finished =
     [Ret_value (Some 3), Raises (Bug ''Unrecognised return type''), Ret_none,
      Raises (Bug ''Unrecognised return type'')]"
    by (simp add: counts_to_finished_eq method_defs)
  show ?thesis by (intro conjI; fact)
qed

subsection \<open>wait after a timeout\<close>






end
